theory Spec2Isabelle
  imports Complex_Main "HOL-Library.Stream" "HOL-Library.Sublist" "HOL-Library.Multiset"
begin

section \<open>The simple attacks of zeroe: \<^verbatim>\<open>src/zeroe/attacks/simple_attacks.py\<close>\<close>

text \<open>
  The words that the transforms work on are modelled as \<^typ>\<open>string\<close>, lists of 8-bit
  characters: the Python strings of characters below U+0100. \<^verbatim>\<open>disemvoweling\<close>, whose
  treatment of case differs on two characters beyond them, is modelled on lists of code
  points. The perturbation level is a Python float, a \<^typ>\<open>real\<close> here; the one
  floating-point operation of the module, the product in \<^verbatim>\<open>simple_perturb\<close>, is
  rounded as IEEE 754 rounds it. An exception is a value of \<open>error\<close>; a loop that may
  run forever returns an \<^typ>\<open>'a option\<close>, where \<open>None\<close> stands for not returning.
\<close>

subsection \<open>Errors and the attack methods\<close>

datatype error =
    UnknownAttack string    \<comment> \<open>\<^verbatim>\<open>ValueError("Unknown attack method:", as_string)\<close>\<close>
  | InvalidLevel            \<comment> \<open>\<^verbatim>\<open>ValueError("Invalid value for perturbation level.")\<close>\<close>
  | UnknownOperation        \<comment> \<open>\<^verbatim>\<open>ValueError(f"Unknown operation {method}")\<close>\<close>
  | EmptyRange              \<comment> \<open>the \<^verbatim>\<open>ValueError\<close> of \<^verbatim>\<open>random.randint(a, b)\<close> with \<open>b < a\<close>\<close>
  | KeyError string         \<comment> \<open>a dictionary indexed at a missing key\<close>
  | IndexError              \<comment> \<open>a list indexed out of range\<close>

datatype SimpleAttack =
    SWAP_FULL | SWAP_INNER | INTRUDE | DISEMVOWEL | TRUNCATE
  | TYPO_KEYBOARD | TYPO_NATURAL | SEGMENT

definition fromString :: "string \<Rightarrow> error + SimpleAttack" where
  "fromString as_string =
     (if as_string = ''full-swap'' then Inr SWAP_FULL
      else if as_string = ''inner-swap'' then Inr SWAP_INNER
      else if as_string = ''intrude'' then Inr INTRUDE
      else if as_string = ''disemvowel'' then Inr DISEMVOWEL
      else if as_string = ''truncate'' then Inr TRUNCATE
      else if as_string = ''keyboard-typo'' then Inr TYPO_KEYBOARD
      else if as_string = ''natural-typo'' then Inr TYPO_NATURAL
      else if as_string = ''segment'' then Inr SEGMENT
      else Inl (UnknownAttack as_string))"

subsection \<open>The two random generators\<close>

text \<open>
  The module draws from numpy's global generator (\<^verbatim>\<open>np.random\<close>) and from the generator
  of Python's \<^verbatim>\<open>random\<close> module. Each is modelled by the stream of the raw draws it
  still has to deliver; a call reads the head of its stream and leaves the tail.
  \<open>np_seeded s\<close> is the stream numpy's generator delivers after \<^verbatim>\<open>np.random.seed(s)\<close>.
  A theorem about every state of the generators is a theorem about every outcome of the
  random choices.
\<close>

record rand_state =
  np_random :: "nat stream"
  py_random :: "nat stream"
  np_seeded :: "nat \<Rightarrow> nat stream"

definition np_next :: "rand_state \<Rightarrow> nat \<times> rand_state" where
  "np_next g = (shd (np_random g), g\<lparr>np_random := stl (np_random g)\<rparr>)"

definition py_next :: "rand_state \<Rightarrow> nat \<times> rand_state" where
  "py_next g = (shd (py_random g), g\<lparr>py_random := stl (py_random g)\<rparr>)"

text \<open>A raw draw read as a double in \<open>[0, 1)\<close>: a multiple of \<open>2\<^sup>-\<^sup>5\<^sup>3\<close>.\<close>

definition unit_interval :: "nat \<Rightarrow> real" where
  "unit_interval r = real (r mod 2 ^ 53) / 2 ^ 53"

text \<open>\<^verbatim>\<open>np.random.seed(seed)\<close>, called only where \<^verbatim>\<open>seed is not None\<close>.\<close>

definition np_random_seed :: "nat option \<Rightarrow> rand_state \<Rightarrow> rand_state" where
  "np_random_seed seed g =
     (case seed of None \<Rightarrow> g | Some s \<Rightarrow> g\<lparr>np_random := np_seeded g s\<rparr>)"

text \<open>\<^verbatim>\<open>np.random.uniform(0, 1)\<close> and \<^verbatim>\<open>random.random()\<close>.\<close>

definition np_random_uniform :: "rand_state \<Rightarrow> real \<times> rand_state" where
  "np_random_uniform g = (case np_next g of (r, g') \<Rightarrow> (unit_interval r, g'))"

definition random_random :: "rand_state \<Rightarrow> real \<times> rand_state" where
  "random_random g = (case py_next g of (r, g') \<Rightarrow> (unit_interval r, g'))"

text \<open>
  \<^verbatim>\<open>np.random.choice(xs)\<close> and \<^verbatim>\<open>random.choice(xs)\<close> on a non-empty list: some
  element of the list.
\<close>

definition np_random_choice :: "'a list \<Rightarrow> rand_state \<Rightarrow> 'a \<times> rand_state" where
  "np_random_choice xs g = (case np_next g of (r, g') \<Rightarrow> (xs ! (r mod length xs), g'))"

definition random_choice :: "'a list \<Rightarrow> rand_state \<Rightarrow> 'a \<times> rand_state" where
  "random_choice xs g = (case py_next g of (r, g') \<Rightarrow> (xs ! (r mod length xs), g'))"

text \<open>\<^verbatim>\<open>random.randint(a, b)\<close>: an integer of \<open>[a, b]\<close>, a \<^verbatim>\<open>ValueError\<close> when \<open>b < a\<close>.\<close>

definition random_randint :: "int \<Rightarrow> int \<Rightarrow> rand_state \<Rightarrow> error + (int \<times> rand_state)" where
  "random_randint a b g =
     (if b < a then Inl EmptyRange
      else case py_next g of (r, g') \<Rightarrow> Inr (a + int (r mod nat (b - a + 1)), g'))"

text \<open>
  \<^verbatim>\<open>np.random.shuffle(chars)\<close>: the draw selects the rearrangement. \<open>arrange n r xs\<close>
  takes the element at position \<open>r mod length xs\<close> out of \<open>xs\<close>, puts it first and
  arranges the rest by \<open>r div length xs\<close>; every rearrangement of \<open>xs\<close> is
  \<open>arrange (length xs) r xs\<close> for some \<open>r\<close>.
\<close>

fun arrange :: "nat \<Rightarrow> nat \<Rightarrow> 'a list \<Rightarrow> 'a list" where
  "arrange 0 r xs = []"
| "arrange (Suc n) r xs =
     (if xs = [] then []
      else (xs ! (r mod length xs)) #
           arrange n (r div length xs)
             (take (r mod length xs) xs @ drop (Suc (r mod length xs)) xs))"

definition np_random_shuffle :: "'a list \<Rightarrow> rand_state \<Rightarrow> 'a list \<times> rand_state" where
  "np_random_shuffle xs g = (case np_next g of (r, g') \<Rightarrow> (arrange (length xs) r xs, g'))"

subsection \<open>\<^verbatim>\<open>swap\<close>\<close>

text \<open>The inner function \<^verbatim>\<open>__shuffle_string__\<close>, whose \<^verbatim>\<open>_seed\<close> is the \<^verbatim>\<open>seed\<close> of \<^verbatim>\<open>swap\<close>.\<close>

definition shuffle_string :: "nat option \<Rightarrow> string \<Rightarrow> rand_state \<Rightarrow> string \<times> rand_state" where
  "shuffle_string seed w g = np_random_shuffle w (np_random_seed seed g)"

text \<open>
  The loop \<^verbatim>\<open>while perturbed == word\<close> of \<^verbatim>\<open>swap\<close>, entered with \<open>tries\<close> shuffles done.
  It is only reached by words of three characters or more (four when \<open>inner\<close>), so
  \<^verbatim>\<open>word[0]\<close>, \<^verbatim>\<open>word[1:-1]\<close> and \<^verbatim>\<open>word[-1]\<close> are \<open>hd\<close>, \<open>butlast \<circ> tl\<close> and \<open>last\<close>.
\<close>

function swap_loop ::
  "string \<Rightarrow> bool \<Rightarrow> nat option \<Rightarrow> nat \<Rightarrow> string \<Rightarrow> rand_state \<Rightarrow> string \<times> rand_state" where
  "swap_loop word inner seed tries perturbed g =
     (if perturbed = word then
        if tries + 1 > 10 then (perturbed, g)
        else if inner then
          (case shuffle_string seed (butlast (tl word)) g of
             (mid, g') \<Rightarrow> swap_loop word inner seed (tries + 1) (hd word # mid @ [last word]) g')
        else
          (case shuffle_string seed word g of
             (shuffled, g') \<Rightarrow> swap_loop word inner seed (tries + 1) shuffled g')
      else (perturbed, g))"
  by pat_completeness auto
termination
  by (relation "measure (\<lambda>(word, inner, seed, tries, perturbed, g). 11 - tries)") auto

declare swap_loop.simps [simp del]

definition swap :: "string \<Rightarrow> bool \<Rightarrow> nat option \<Rightarrow> rand_state \<Rightarrow> string \<times> rand_state" where
  "swap word inner seed g =
     (if length word < 3 \<or> inner \<and> length word < 4 then (word, g)
      else swap_loop word inner seed 0 word g)"

subsection \<open>Characters\<close>

text \<open>
  \<^verbatim>\<open>str.isupper\<close> and \<^verbatim>\<open>str.lower\<close> on one ASCII character, as \<^verbatim>\<open>key\<close> uses
  them: the letters are paired by their position in the two alphabets, every other
  character is its own lower case.
\<close>

definition ascii_lowercase :: string where
  "ascii_lowercase = ''abcdefghijklmnopqrstuvwxyz''"

definition ascii_uppercase :: string where
  "ascii_uppercase = ''ABCDEFGHIJKLMNOPQRSTUVWXYZ''"

definition isupper :: "char \<Rightarrow> bool" where
  "isupper c = (c \<in> set ascii_uppercase)"

definition lower :: "char \<Rightarrow> char" where
  "lower c =
     (case map_of (zip ascii_uppercase ascii_lowercase) c of Some l \<Rightarrow> l | None \<Rightarrow> c)"

text \<open>
  \<^verbatim>\<open>string.punctuation\<close>, the 32 characters \<^verbatim>\<open>!"#$%&'()*+,-./:;<=>?@[\]^_`{|}~\<close>;
  the double quote, the quote, the backslash and the backquote are given by their codes.
\<close>

definition string_punctuation :: string where
  "string_punctuation =
     ''!'' @ [CHR 0x22] @ ''#$%&'' @ [CHR 0x27] @ ''()*+,-./:;<=>?@['' @ [CHR 0x5C]
       @ '']^_'' @ [CHR 0x60] @ ''{|}~''"

subsection \<open>\<^verbatim>\<open>intruders\<close>\<close>

text \<open>
  The inner loop \<^verbatim>\<open>while i < len(chars)\<close>: one scan over the gaps of the word.
  \<^verbatim>\<open>chars.insert(i, punct)\<close> is \<open>take i chars @ punct # drop i chars\<close>.
\<close>

function intruders_scan ::
  "real \<Rightarrow> nat option \<Rightarrow> char \<Rightarrow> nat \<Rightarrow> string \<Rightarrow> rand_state \<Rightarrow> string \<times> rand_state" where
  "intruders_scan perturbation_level seed punct i chars g =
     (if i < length chars then
        (case np_random_uniform (np_random_seed seed g) of
           (u, g') \<Rightarrow>
             if u < perturbation_level
             then intruders_scan perturbation_level seed punct (i + 1 + 1)
                    (take i chars @ punct # drop i chars) g'
             else intruders_scan perturbation_level seed punct (i + 1) chars g')
      else (chars, g))"
  by pat_completeness auto
termination
  by (relation "measure (\<lambda>(l, seed, punct, i, chars, g). length chars - i)") auto

declare intruders_scan.simps [simp del]

text \<open>
  The outer loop \<^verbatim>\<open>while perturbed == word\<close>. It is entered with \<^verbatim>\<open>perturbed = word\<close>,
  so its body runs at least once; it has no bound, and \<open>None\<close> is the run that never
  leaves it.
\<close>

partial_function (option) intruders_retry ::
  "string \<Rightarrow> real \<Rightarrow> nat option \<Rightarrow> char \<Rightarrow> string \<Rightarrow> rand_state \<Rightarrow> (string \<times> rand_state) option"
where
  "intruders_retry word perturbation_level seed punct chars g =
     (case intruders_scan perturbation_level seed punct 1 chars g of
        (chars', g') \<Rightarrow>
          if chars' = word
          then intruders_retry word perturbation_level seed punct chars' g'
          else Some (chars', g'))"

text \<open>\<^verbatim>\<open>word in string.punctuation\<close> is Python's substring test.\<close>

definition intruders ::
  "string \<Rightarrow> real \<Rightarrow> nat option \<Rightarrow> rand_state \<Rightarrow> (string \<times> rand_state) option" where
  "intruders word perturbation_level seed g =
     (case random_choice string_punctuation g of
        (punct, g') \<Rightarrow>
          if sublist word string_punctuation \<or> length word < 2 then Some (word, g')
          else if length word = 2 then Some ([hd word, punct, last word], g')
          else intruders_retry word perturbation_level seed punct word g')"

subsection \<open>\<^verbatim>\<open>disemvoweling\<close>\<close>

text \<open>
  A Python string is a list of code points; \<open>str\<close> is the Python string of an 8-bit
  literal.
\<close>

type_synonym codepoint = nat

definition str :: "string \<Rightarrow> codepoint list" where
  "str s = map of_char s"

text \<open>
  \<^verbatim>\<open>vocals\<close> is the default \<^verbatim>\<open>"AEIOU"\<close> throughout: the module never passes another
  value, and line 193 splices \<^verbatim>\<open>vocals\<close> into a regular expression, where other
  values mean other things than their letters.

  The test \<^verbatim>\<open>char.upper() in vocals\<close> holds of the characters whose upper case, by
  Python's \<^verbatim>\<open>str.upper\<close>, is one of A, E, I, O, U: the ten letters and the dotless
  \<open>U+0131\<close>, whose upper case is I. The class \<^verbatim>\<open>[AEIOU]\<close> under \<^verbatim>\<open>re.IGNORECASE\<close>
  matches those eleven characters and the dotted capital \<open>U+0130\<close>, which the
  expression folds to i but whose upper case is itself.
\<close>

definition upper_in_vocals :: "codepoint \<Rightarrow> bool" where
  "upper_in_vocals c = (c \<in> set (str ''AEIOUaeiou'') \<or> c = 0x131)"

definition re_vocals_ignorecase :: "codepoint \<Rightarrow> bool" where
  "re_vocals_ignorecase c = (c \<in> set (str ''AEIOUaeiou'') \<or> c = 0x130 \<or> c = 0x131)"

text \<open>The counting loop \<^verbatim>\<open>for char in word\<close>, from \<open>count_vowels\<close> vowels counted so far.\<close>

fun count_vowels_loop :: "codepoint list \<Rightarrow> nat \<Rightarrow> nat" where
  "count_vowels_loop [] count_vowels = count_vowels"
| "count_vowels_loop (char # rest) count_vowels =
     (if upper_in_vocals char
      then count_vowels_loop rest (count_vowels + 1)
      else count_vowels_loop rest count_vowels)"

text \<open>\<^verbatim>\<open>re.sub\<close> with the empty replacement deletes every character the class matches.\<close>

definition disemvoweling :: "codepoint list \<Rightarrow> codepoint list" where
  "disemvoweling word =
     (if length word < 3 then word
      else if count_vowels_loop word 0 = length word then word
      else filter (\<lambda>c. \<not> re_vocals_ignorecase c) word)"

text \<open>\<^verbatim>\<open>disemvoweling\<close> on a word of 8-bit characters, as a word of 8-bit characters.\<close>

definition disemvoweling_latin1 :: "string \<Rightarrow> string" where
  "disemvoweling_latin1 word = map char_of (disemvoweling (str word))"

subsection \<open>\<^verbatim>\<open>truncating\<close>\<close>

function truncating_loop :: "string \<Rightarrow> int \<Rightarrow> int \<Rightarrow> string" where
  "truncating_loop chars minlen tmp_cutoff =
     (if int (length chars) > minlen \<and> tmp_cutoff > 0
      then truncating_loop (butlast chars) minlen (tmp_cutoff - 1)
      else chars)"
  by pat_completeness auto
termination
  by (relation "measure (\<lambda>(chars, minlen, tmp_cutoff). nat tmp_cutoff)") auto

declare truncating_loop.simps [simp del]

definition truncating_with :: "string \<Rightarrow> int \<Rightarrow> int \<Rightarrow> string" where
  "truncating_with word minlen cutoff = truncating_loop word minlen cutoff"

definition truncating :: "string \<Rightarrow> string" where
  "truncating word = truncating_with word 3 1"

subsection \<open>\<^verbatim>\<open>key\<close> and \<^verbatim>\<open>natural\<close>\<close>

text \<open>
  The tables \<^verbatim>\<open>NN\<close> and \<^verbatim>\<open>typos\<close> are read from the files \<^verbatim>\<open>en.key\<close> and
  \<^verbatim>\<open>en.natural\<close> when the module is loaded: the first token of a line is the key, the
  other tokens are its list. They are parameters here.

  In \<^verbatim>\<open>key\<close>, the test \<^verbatim>\<open>char in NN\<close> looks up the character as it is, and the
  list is \<^verbatim>\<open>NN[char.lower()]\<close>. The statement \<^verbatim>\<open>word[i].upper()\<close> under
  \<^verbatim>\<open>if caps\<close> computes a string that is not stored: it has no effect, so \<open>caps\<close> is
  bound below and not used.
\<close>

type_synonym table = "string \<rightharpoonup> string list"

definition key :: "table \<Rightarrow> string \<Rightarrow> real \<Rightarrow> rand_state \<Rightarrow> error + (string \<times> rand_state)" where
  "key NN word probability g =
     (case random_random g of
        (p, g1) \<Rightarrow>
          if p > probability then Inr (word, g1)
          else
            (case random_randint 0 (int (length word) - 1) g1 of
               Inl e \<Rightarrow> Inl e
             | Inr (i, g2) \<Rightarrow>
                 (let char = word ! nat i; caps = isupper char in
                  if NN [char] \<noteq> None then
                    (case NN [lower char] of
                       None \<Rightarrow> Inl (KeyError [lower char])
                     | Some neighbours \<Rightarrow>
                         (case random_randint 0 (int (length neighbours) - 1) g2 of
                            Inl e \<Rightarrow> Inl e
                          | Inr (j, g3) \<Rightarrow>
                              Inr (take (nat i) word @ neighbours ! nat j
                                     @ drop (Suc (nat i)) word, g3)))
                  else Inr (word, g2))))"

definition natural :: "table \<Rightarrow> string \<Rightarrow> real \<Rightarrow> rand_state \<Rightarrow> error + (string \<times> rand_state)" where
  "natural typos word precentage g =
     (case random_random g of
        (p, g1) \<Rightarrow>
          if p > precentage then Inr (word, g1)
          else
            (case typos word of
               Some variants \<Rightarrow>
                 (case random_randint 0 (int (length variants) - 1) g1 of
                    Inl e \<Rightarrow> Inl e
                  | Inr (j, g2) \<Rightarrow> Inr (variants ! nat j, g2))
             | None \<Rightarrow> Inr (word, g1)))"

subsection \<open>\<^verbatim>\<open>segmentation\<close>\<close>

text \<open>
  The loop \<^verbatim>\<open>for word in nltk.word_tokenize(text)\<close> over the tokens still to come, and
  the lines after it, which emit a non-empty trailing buffer.
\<close>

fun segmentation_loop ::
  "real \<Rightarrow> string list \<Rightarrow> string list \<Rightarrow> string \<Rightarrow> rand_state
     \<Rightarrow> string list \<times> string \<times> rand_state" where
  "segmentation_loop probability [] result buffer g = (result, buffer, g)"
| "segmentation_loop probability (word # rest) result buffer g =
     (case np_random_uniform g of
        (u, g') \<Rightarrow>
          if u < probability
          then segmentation_loop probability rest result (buffer @ word) g'
          else segmentation_loop probability rest (result @ [buffer @ word]) [] g')"

definition segmentation_tokens ::
  "string list \<Rightarrow> real \<Rightarrow> rand_state \<Rightarrow> string list \<times> rand_state" where
  "segmentation_tokens tokens probability g =
     (case segmentation_loop probability tokens [] [] g of
        (result, buffer, g') \<Rightarrow>
          (if buffer \<noteq> [] then result @ [buffer] else result, g'))"

text \<open>
  \<^verbatim>\<open>nltk.word_tokenize\<close> and \<^verbatim>\<open>TreebankWordDetokenizer().detokenize\<close> belong to the
  NLTK library; they are the parameters \<open>tokenize\<close> and \<open>detokenize\<close>.
\<close>

definition segmentation ::
  "(string \<Rightarrow> string list) \<Rightarrow> (string list \<Rightarrow> string)
     \<Rightarrow> string \<Rightarrow> real \<Rightarrow> rand_state \<Rightarrow> string \<times> rand_state" where
  "segmentation tokenize detokenize text probability g =
     (case segmentation_tokens (tokenize text) probability g of
        (result, g') \<Rightarrow> (detokenize result, g'))"

subsection \<open>\<^verbatim>\<open>simple_perturb\<close>\<close>

text \<open>
  The chain \<^verbatim>\<open>if method == ... elif ...\<close> in the body of the loop. The transforms are
  called as the source calls them: \<^verbatim>\<open>swap\<close> and \<^verbatim>\<open>intruders\<close> without a seed,
  \<^verbatim>\<open>key\<close> and \<^verbatim>\<open>natural\<close> without their second argument, whose default is \<open>1.0\<close>.
\<close>

definition perturb_word ::
  "table \<Rightarrow> table \<Rightarrow> SimpleAttack \<Rightarrow> real \<Rightarrow> string \<Rightarrow> rand_state
     \<Rightarrow> (error + (string \<times> rand_state)) option" where
  "perturb_word NN typos method perturbation_level word g =
     (case method of
        SWAP_FULL \<Rightarrow> Some (Inr (swap word False None g))
      | SWAP_INNER \<Rightarrow> Some (Inr (swap word True None g))
      | INTRUDE \<Rightarrow> map_option Inr (intruders word perturbation_level None g)
      | DISEMVOWEL \<Rightarrow> Some (Inr (disemvoweling_latin1 word, g))
      | TRUNCATE \<Rightarrow> Some (Inr (truncating word, g))
      | TYPO_KEYBOARD \<Rightarrow> Some (key NN word 1 g)
      | TYPO_NATURAL \<Rightarrow> Some (natural typos word 1 g)
      | SEGMENT \<Rightarrow> Some (Inl UnknownOperation))"

text \<open>The local variables of \<^verbatim>\<open>simple_perturb\<close> that the loop changes, and the generators.\<close>

record selector_state =
  words :: "string list"
  word_indexes :: "nat list"
  perturbed_words :: nat
  rng :: rand_state

text \<open>
  One pass through the body of the loop, after the emergency exit: the index picked
  and the state the pass leaves. \<^verbatim>\<open>word_indexes.remove(index)\<close> is \<open>remove1\<close>.
\<close>

definition selector_iteration ::
  "table \<Rightarrow> table \<Rightarrow> SimpleAttack \<Rightarrow> real \<Rightarrow> selector_state
     \<Rightarrow> (error + (nat \<times> selector_state)) option" where
  "selector_iteration NN typos method perturbation_level st =
     (case np_random_choice (word_indexes st) (rng st) of
        (index, g1) \<Rightarrow>
          (let pool = remove1 index (word_indexes st) in
           if \<not> index < length (words st) then Some (Inl IndexError)
           else
             (let word = words st ! index in
              case perturb_word NN typos method perturbation_level word g1 of
                None \<Rightarrow> None
              | Some (Inl e) \<Rightarrow> Some (Inl e)
              | Some (Inr (perturbed_word, g2)) \<Rightarrow>
                  Some (Inr (index,
                    \<lparr>words = (words st)[index := perturbed_word],
                     word_indexes = pool,
                     perturbed_words =
                       perturbed_words st + (if perturbed_word \<noteq> word then 1 else 0),
                     rng = g2\<rparr>)))))"

lemma selector_iteration_pool:
  assumes "selector_iteration NN typos method perturbation_level st = Some (Inr (index, st'))"
    and "\<not> length (word_indexes st) < 1"
  shows "index \<in> set (word_indexes st) \<and> word_indexes st' = remove1 index (word_indexes st)"
proof -
  obtain r g1 where nx: "np_next (rng st) = (r, g1)"
    by (cases "np_next (rng st)")
  from assms(2) have "word_indexes st ! (r mod length (word_indexes st)) \<in> set (word_indexes st)"
    by simp
  with assms(1) nx show ?thesis
    by (auto simp: selector_iteration_def np_random_choice_def Let_def
             split: if_splits option.splits sum.splits prod.splits)
qed

lemma selector_iteration_shrinks:
  assumes "selector_iteration NN typos method perturbation_level st = Some (Inr (index, st'))"
    and "\<not> length (word_indexes st) < 1"
  shows "length (word_indexes st') < length (word_indexes st)"
  using selector_iteration_pool [OF assms] assms(2)
  by (simp add: length_remove1)

text \<open>The loop \<^verbatim>\<open>while perturbed_words < perturb_target\<close>.\<close>

function selector_loop ::
  "table \<Rightarrow> table \<Rightarrow> SimpleAttack \<Rightarrow> real \<Rightarrow> real \<Rightarrow> selector_state
     \<Rightarrow> (error + selector_state) option" where
  "selector_loop NN typos method perturbation_level perturb_target st =
     (if real (perturbed_words st) < perturb_target then
        if length (word_indexes st) < 1 then Some (Inr st)
        else
          (case selector_iteration NN typos method perturbation_level st of
             None \<Rightarrow> None
           | Some (Inl e) \<Rightarrow> Some (Inl e)
           | Some (Inr (index, st')) \<Rightarrow>
               selector_loop NN typos method perturbation_level perturb_target st')
      else Some (Inr st))"
  by pat_completeness auto
termination
  by (relation "measure (\<lambda>(NN, typos, method, l, t, st). length (word_indexes st))")
     (auto dest: selector_iteration_shrinks)

declare selector_loop.simps [simp del]

text \<open>
  The indexes the loop picks from a state on, in the order of the passes: one per pass
  through the body, also for the pass in which a transform raises or does not return.
\<close>

function attempted ::
  "table \<Rightarrow> table \<Rightarrow> SimpleAttack \<Rightarrow> real \<Rightarrow> real \<Rightarrow> selector_state \<Rightarrow> nat list" where
  "attempted NN typos method perturbation_level perturb_target st =
     (if real (perturbed_words st) < perturb_target \<and> \<not> length (word_indexes st) < 1 then
        fst (np_random_choice (word_indexes st) (rng st)) #
          (case selector_iteration NN typos method perturbation_level st of
             Some (Inr (index, st')) \<Rightarrow>
               attempted NN typos method perturbation_level perturb_target st'
           | _ \<Rightarrow> [])
      else [])"
  by pat_completeness auto
termination
  by (relation "measure (\<lambda>(NN, typos, method, l, t, st). length (word_indexes st))")
     (auto dest: selector_iteration_shrinks)

declare attempted.simps [simp del]

text \<open>The state in which \<^verbatim>\<open>simple_perturb\<close> enters the loop, and its \<^verbatim>\<open>perturb_target\<close>.\<close>

definition selector_start :: "string list \<Rightarrow> rand_state \<Rightarrow> selector_state" where
  "selector_start tokens g =
     \<lparr>words = tokens, word_indexes = [0 ..< length tokens], perturbed_words = 0, rng = g\<rparr>"

text \<open>
  Line 70 multiplies the number of words by the level in floating point: the product is
  the double nearest the exact product, ties going to the even significand.
  \<open>binade x\<close> is the exponent \<open>e\<close> with \<open>2\<^sup>e \<le> \<bar>x\<bar> < 2\<^sup>e\<^sup>+\<^sup>1\<close>, not below that of the
  least normal double; the doubles around \<open>x\<close> are the multiples of \<open>2\<^sup>e\<^sup>-\<^sup>5\<^sup>2\<close>. (No
  overflow: the level is at most 1, and a number of words is far below \<open>2\<^sup>5\<^sup>3\<close>, so
  it is a double itself.)
\<close>

definition round_half_even :: "real \<Rightarrow> int" where
  "round_half_even x =
     (if frac x < 1/2 then \<lfloor>x\<rfloor>
      else if frac x > 1/2 then \<lceil>x\<rceil>
      else if even \<lfloor>x\<rfloor> then \<lfloor>x\<rfloor> else \<lceil>x\<rceil>)"

definition binade :: "real \<Rightarrow> int" where
  "binade x = max \<lfloor>log 2 \<bar>x\<bar>\<rfloor> (- 1022)"

definition to_double :: "real \<Rightarrow> real" where
  "to_double x =
     (if x = 0 then 0
      else sgn x * of_int (round_half_even (\<bar>x\<bar> / 2 powi (binade x - 52)))
             * 2 powi (binade x - 52))"

definition perturb_target_of :: "string list \<Rightarrow> real \<Rightarrow> real" where
  "perturb_target_of tokens perturbation_level =
     to_double (real (length tokens) * perturbation_level)"



definition changed_positions :: "string list \<Rightarrow> string list \<Rightarrow> nat list" where
  "changed_positions tokens ws = filter (\<lambda>i. ws ! i \<noteq> tokens ! i) [0 ..< length tokens]"

text \<open>
  What every pass keeps true of the state, for the tokens the loop started from: the
  words at the indexes still in the pool are untouched, and \<open>perturbed_words\<close> counts
  the positions whose word has changed.
\<close>

definition counts_changes :: "string list \<Rightarrow> selector_state \<Rightarrow> bool" where
  "counts_changes tokens st \<longleftrightarrow>
     length (words st) = length tokens
     \<and> distinct (word_indexes st)
     \<and> set (word_indexes st) \<subseteq> {0 ..< length tokens}
     \<and> list_all (\<lambda>i. words st ! i = tokens ! i) (word_indexes st)
     \<and> perturbed_words st = length (changed_positions tokens (words st))"

text \<open>
  The first statement of \<^verbatim>\<open>simple_perturb\<close>: a method given as a string is converted,
  a \<open>SimpleAttack\<close> is taken as it is.
\<close>

definition resolve_method :: "string + SimpleAttack \<Rightarrow> error + SimpleAttack" where
  "resolve_method method =
     (case method of Inl as_string \<Rightarrow> fromString as_string | Inr m \<Rightarrow> Inr m)"

text \<open>
  \<^verbatim>\<open>simple_perturb\<close>. The result is the text with the generators as the call leaves
  them, an error, or \<open>None\<close> when a transform does not return.
\<close>

definition simple_perturb ::
  "(string \<Rightarrow> string list) \<Rightarrow> (string list \<Rightarrow> string) \<Rightarrow> table \<Rightarrow> table
     \<Rightarrow> string \<Rightarrow> string + SimpleAttack \<Rightarrow> real \<Rightarrow> rand_state
     \<Rightarrow> (error + (string \<times> rand_state)) option" where
  "simple_perturb tokenize detokenize NN typos text method perturbation_level g =
     (case resolve_method method of
        Inl e \<Rightarrow> Some (Inl e)
      | Inr m \<Rightarrow>
          if \<not> (0 \<le> perturbation_level \<and> perturbation_level \<le> 1) then Some (Inl InvalidLevel)
          else if m = SEGMENT
          then Some (Inr (segmentation tokenize detokenize text perturbation_level g))
          else
            (case selector_loop NN typos m perturbation_level
                    (perturb_target_of (tokenize text) perturbation_level)
                    (selector_start (tokenize text) g) of
               None \<Rightarrow> None
             | Some (Inl e) \<Rightarrow> Some (Inl e)
             | Some (Inr st) \<Rightarrow> Some (Inr (detokenize (words st), rng st))))"

subsection \<open>The specification's reading of \<open>Disemvowel\<close>\<close>

text \<open>
  The specification's words, to compare \<open>disemvoweling\<close> with: the vowels are A, E, I,
  O, U in either case; a word of vowels only is kept, any other word loses exactly its
  vowels.
\<close>

definition is_vowel :: "codepoint \<Rightarrow> bool" where
  "is_vowel c = (c \<in> set (str ''AEIOUaeiou''))"

definition Disemvowel_spec :: "codepoint list \<Rightarrow> codepoint list" where
  "Disemvowel_spec w = (if list_all is_vowel w then w else filter (\<lambda>c. \<not> is_vowel c) w)"

subsection \<open>Concrete generators, tables and tokenizers\<close>

text \<open>Generators whose every raw draw is \<open>r\<close>.\<close>

definition const_rand :: "nat \<Rightarrow> rand_state" where
  "const_rand r = \<lparr>np_random = sconst r, py_random = sconst r, np_seeded = (\<lambda>s. sconst r)\<rparr>"

text \<open>
  On a text of letters and blanks, \<^verbatim>\<open>nltk.word_tokenize\<close> returns the maximal runs of
  letters, and the detokenizer joins tokens of letters with single blanks. The two
  functions below do this; they stand for the library on such texts.
\<close>

fun blank_split :: "string \<Rightarrow> string \<Rightarrow> string list" where
  "blank_split [] current = (if current = [] then [] else [current])"
| "blank_split (c # cs) current =
     (if c = CHR '' '' then (if current = [] then blank_split cs [] else current # blank_split cs [])
      else blank_split cs (current @ [c]))"

definition blank_tokenize :: "string \<Rightarrow> string list" where
  "blank_tokenize text = blank_split text []"

fun blank_detokenize :: "string list \<Rightarrow> string" where
  "blank_detokenize [] = []"
| "blank_detokenize [w] = w"
| "blank_detokenize (w # ws) = w @ '' '' @ blank_detokenize ws"

text \<open>Tables with the single line \<^verbatim>\<open>a s\<close>, and with the lines \<^verbatim>\<open>a s\<close> and \<^verbatim>\<open>A S\<close>.\<close>

definition table_a :: table where
  "table_a = [''a'' \<mapsto> [''s'']]"

definition table_aA :: table where
  "table_aA = [''a'' \<mapsto> [''s''], ''A'' \<mapsto> [''S'']]"

text \<open>A table of typos with the single line \<^verbatim>\<open>the teh\<close>.\<close>

definition table_the :: table where
  "table_the = [''the'' \<mapsto> [''teh'']]"

text \<open>Tables that list a key among its own entries: the lines \<^verbatim>\<open>a a\<close> and \<^verbatim>\<open>the the\<close>.\<close>

definition table_a_a :: table where
  "table_a_a = [''a'' \<mapsto> [''a'']]"

definition table_the_the :: table where
  "table_the_the = [''the'' \<mapsto> [''the'']]"

section \<open>Properties\<close>

subsection \<open>Shuffling rearranges\<close>

lemma mset_without_nth:
  "k < length xs \<Longrightarrow> add_mset (xs ! k) (mset (take k xs @ drop (Suc k) xs)) = mset xs"
proof -
  assume k: "k < length xs"
  have "mset xs = mset (take k xs @ xs ! k # drop (Suc k) xs)"
    using id_take_nth_drop [OF k] by simp
  then show ?thesis by simp
qed

lemma mset_arrange: "length xs \<le> n \<Longrightarrow> mset (arrange n r xs) = mset xs"
proof (induction n arbitrary: r xs)
  case 0
  then show ?case by simp
next
  case (Suc n)
  show ?case
  proof (cases "xs = []")
    case True
    then show ?thesis by simp
  next
    case False
    let ?k = "r mod length xs"
    from False have k: "?k < length xs" by simp
    have "length (take ?k xs @ drop (Suc ?k) xs) \<le> n"
      using Suc.prems k by simp
    then have "mset (arrange n (r div length xs) (take ?k xs @ drop (Suc ?k) xs))
                 = mset (take ?k xs @ drop (Suc ?k) xs)"
      by (rule Suc.IH)
    then show ?thesis
      using False mset_without_nth [OF k] by simp
  qed
qed

lemma mset_shuffle_string: "mset (fst (shuffle_string seed w g)) = mset w"
  by (simp add: shuffle_string_def np_random_shuffle_def mset_arrange split: prod.split)

lemma mset_swap_loop:
  "\<not> inner \<Longrightarrow> mset perturbed = mset word \<Longrightarrow>
   mset (fst (swap_loop word inner seed tries perturbed g)) = mset word"
proof (induction word inner seed tries perturbed g rule: swap_loop.induct)
  case (1 word inner seed tries perturbed g)
  show ?case
  proof (cases "perturbed = word \<and> \<not> tries + 1 > 10")
    case False
    then show ?thesis
      using "1.prems" by (subst swap_loop.simps) auto
  next
    case True
    obtain shuffled g' where sh: "shuffle_string seed word g = (shuffled, g')"
      by (cases "shuffle_string seed word g")
    have ms: "mset shuffled = mset word"
      using mset_shuffle_string [of seed word g] sh by simp
    have "mset (fst (swap_loop word inner seed (tries + 1) shuffled g')) = mset word"
      using "1.IH"(2) [of shuffled g'] True "1.prems" sh ms by simp
    then show ?thesis
      using True "1.prems" sh by (subst swap_loop.simps) simp
  qed
qed

text \<open>
  C5. For every word \<open>w\<close> of at least three characters, \<^verbatim>\<open>swap(w, inner=False)\<close> returns a
  rearrangement of \<open>w\<close>: the same multiset of characters, hence the same length. For every
  shorter word it returns \<open>w\<close> itself. Both hold for every seed and every state of the
  generators, that is for every outcome of the at most ten shuffles.
\<close>

theorem swap_full_permutation:
  "(3 \<le> length w \<longrightarrow>
      mset (fst (swap w False seed g)) = mset w \<and> length (fst (swap w False seed g)) = length w)
   \<and> (length w < 3 \<longrightarrow> fst (swap w False seed g) = w)"
proof -
  have ms: "mset (fst (swap w False seed g)) = mset w"
    by (simp add: swap_def mset_swap_loop)
  then have len: "length (fst (swap w False seed g)) = length w"
    by (rule mset_eq_length)
  have short: "length w < 3 \<Longrightarrow> fst (swap w False seed g) = w"
    by (simp add: swap_def)
  from ms len short show ?thesis
    by blast
qed

theorem swap_full_permutation_witness:
  "3 \<le> length ''abc''
   \<and> mset (fst (swap ''abc'' False None (const_rand 1))) = mset ''abc''
   \<and> length (fst (swap ''abc'' False None (const_rand 1))) = length ''abc''
   \<and> length ''hi'' < 3
   \<and> fst (swap ''hi'' False None (const_rand 1)) = ''hi''"
  using swap_full_permutation [of "''abc''" None "const_rand 1"]
    swap_full_permutation [of "''hi''" None "const_rand 1"]
  by simp

subsection \<open>Segmentation keeps the characters\<close>

lemma segmentation_loop_concat:
  "segmentation_loop p ws result buffer g = (result', buffer', g') \<Longrightarrow>
   concat result' @ buffer' = concat result @ buffer @ concat ws"
proof (induction ws arbitrary: result buffer g)
  case Nil
  then show ?case by simp
next
  case (Cons w ws)
  obtain u g1 where u: "np_random_uniform g = (u, g1)"
    by (cases "np_random_uniform g")
  show ?case
  proof (cases "u < p")
    case True
    with Cons.prems u
    have "segmentation_loop p ws result (buffer @ w) g1 = (result', buffer', g')"
      by simp
    from Cons.IH [OF this] show ?thesis by simp
  next
    case False
    with Cons.prems u
    have "segmentation_loop p ws (result @ [buffer @ w]) [] g1 = (result', buffer', g')"
      by simp
    from Cons.IH [OF this] show ?thesis by simp
  qed
qed

text \<open>
  C3. For every sequence of input tokens, every probability and every state of the
  generators (every outcome of the merge decisions), the concatenation of the tokens the
  segmenter emits, the trailing buffer included, is the concatenation of the input
  tokens: only boundaries between tokens disappear.
\<close>

theorem segmentation_preserves_characters:
  "concat (fst (segmentation_tokens tokens probability g)) = concat tokens"
proof -
  obtain result buffer g' where
    loop: "segmentation_loop probability tokens [] [] g = (result, buffer, g')"
    by (cases "segmentation_loop probability tokens [] [] g")
  from segmentation_loop_concat [OF loop]
  have "concat result @ buffer = concat tokens" by simp
  with loop show ?thesis
    by (auto simp: segmentation_tokens_def)
qed

subsection \<open>Disemvoweling\<close>

lemma upper_in_vocals_iff: "upper_in_vocals c \<longleftrightarrow> is_vowel c \<or> c = 0x131"
  by (simp only: upper_in_vocals_def is_vowel_def)

lemma re_vocals_ignorecase_iff:
  "re_vocals_ignorecase c \<longleftrightarrow> is_vowel c \<or> c = 0x130 \<or> c = 0x131"
  by (simp only: re_vocals_ignorecase_def is_vowel_def)

lemma count_vowels_loop_filter:
  "count_vowels_loop w n = n + length (filter upper_in_vocals w)"
  by (induction w arbitrary: n) simp_all

lemma length_filter_full: "length (filter P xs) = length xs \<longleftrightarrow> list_all P xs"
proof (induction xs)
  case Nil
  then show ?case by simp
next
  case (Cons x xs)
  have "length (filter P xs) \<le> length xs" by simp
  with Cons show ?case by (auto simp del: length_filter_le)
qed

lemma disemvoweling_plain:
  assumes "0x130 \<notin> set w" and "0x131 \<notin> set w"
  shows "disemvoweling w = (if length w < 3 then w else Disemvowel_spec w)"
proof -
  have up: "filter upper_in_vocals w = filter is_vowel w"
    using assms(2) by (intro filter_cong) (auto simp: upper_in_vocals_iff)
  have re: "filter (\<lambda>c. \<not> re_vocals_ignorecase c) w = filter (\<lambda>c. \<not> is_vowel c) w"
    using assms by (intro filter_cong) (auto simp: re_vocals_ignorecase_iff)
  have "count_vowels_loop w 0 = length w \<longleftrightarrow> list_all is_vowel w"
    by (simp only: count_vowels_loop_filter add_0 up length_filter_full)
  with re show ?thesis
    by (simp only: disemvoweling_def Disemvowel_spec_def)
qed

lemma of_char_below_256: "(of_char c :: nat) < 256"
proof -
  have "(of_char c :: nat) mod 256 < 256" by simp
  then show ?thesis by (simp only: of_char_mod_256)
qed

lemma str_is_latin1: "0x130 \<notin> set (str w)" "0x131 \<notin> set (str w)"
proof -
  have "c < 256" if "c \<in> set (str w)" for c
    using that of_char_below_256 by (auto simp: str_def)
  then show "0x130 \<notin> set (str w)" "0x131 \<notin> set (str w)"
    by fastforce+
qed

lemma is_vowel_of_char: "is_vowel (of_char c) \<longleftrightarrow> c \<in> set ''AEIOUaeiou''"
proof -
  have "is_vowel (of_char c) \<longleftrightarrow> of_char c \<in> (of_char ` set ''AEIOUaeiou'' :: nat set)"
    by (simp only: is_vowel_def str_def set_map)
  also have "\<dots> \<longleftrightarrow> c \<in> set ''AEIOUaeiou''"
    by (rule inj_image_mem_iff [OF inj_of_char])
  finally show ?thesis .
qed

lemma disemvoweling_latin1_unfolded:
  "disemvoweling_latin1 w =
     (if length w < 3 then w
      else if list_all (\<lambda>c. c \<in> set ''AEIOUaeiou'') w then w
      else filter (\<lambda>c. c \<notin> set ''AEIOUaeiou'') w)"
proof -
  have chars: "map char_of (str w) = w"
    by (simp add: str_def)
  have all: "list_all is_vowel (str w) \<longleftrightarrow> list_all (\<lambda>c. c \<in> set ''AEIOUaeiou'') w"
    unfolding str_def list_all_iff by (simp only: set_map ball_simps is_vowel_of_char)
  have "filter (\<lambda>c. \<not> is_vowel c) (map of_char w)
          = map of_char (filter (\<lambda>c. \<not> is_vowel (of_char c)) w)"
    by (simp only: filter_map comp_def)
  then have rest: "map char_of (filter (\<lambda>c. \<not> is_vowel c) (str w))
                = filter (\<lambda>c. c \<notin> set ''AEIOUaeiou'') w"
    by (simp only: str_def is_vowel_of_char map_map char_of_comp_of_char list.map_id)
  have len: "length (str w) = length w"
    by (simp only: str_def length_map)
  have plain: "disemvoweling (str w) = (if length w < 3 then str w else Disemvowel_spec (str w))"
    using disemvoweling_plain [OF str_is_latin1] by (simp only: len)
  show ?thesis
  proof (cases "length w < 3")
    case True
    with plain chars show ?thesis
      by (simp only: disemvoweling_latin1_def if_True)
  next
    case short: False
    show ?thesis
    proof (cases "list_all (\<lambda>c. c \<in> set ''AEIOUaeiou'') w")
      case True
      with short plain chars all show ?thesis
        by (simp only: disemvoweling_latin1_def Disemvowel_spec_def if_True if_False)
    next
      case False
      with short plain rest all show ?thesis
        by (simp only: disemvoweling_latin1_def Disemvowel_spec_def if_False)
    qed
  qed
qed

lemma disemvoweling_examples:
  "disemvoweling_latin1 ''like'' = ''lk''" "disemvoweling_latin1 ''apples'' = ''ppls''"
  by (simp_all add: disemvoweling_latin1_unfolded)

text \<open>
  The two tests of case disagree on the dotted capital \<open>U+0130\<close>: the loop does not
  count it, the regular expression deletes it. A word of three of them is not a word of
  vowels for the loop, and comes back empty.
\<close>

lemma disemvoweling_dotted_capital:
  "disemvoweling [0x130, 0x130, 0x130] = []"
  by (simp add: disemvoweling_def upper_in_vocals_def re_vocals_ignorecase_def str_def)

text \<open>
  C4, as the specification states it, fails: a word of fewer than three characters is
  returned as it is even when it has a vowel and a consonant. \<^verbatim>\<open>disemvoweling("at")\<close>
  is \<^verbatim>\<open>"at"\<close>, where the claim asks for \<^verbatim>\<open>"t"\<close>.
\<close>

theorem disemvoweling_short_word_counterexample:
  "disemvoweling (str ''at'') = str ''at'' \<and> Disemvowel_spec (str ''at'') = str ''t''"
  by (simp add: disemvoweling_def Disemvowel_spec_def is_vowel_def str_def)

text \<open>
  C4, amended. A word of fewer than three characters is returned unchanged. Every word
  \<open>w\<close> of three characters or more that holds neither the dotted capital \<open>U+0130\<close>
  nor the dotless \<open>U+0131\<close> is returned without exactly its occurrences of the vowels
  A, E, I, O, U in either case, unless \<open>w\<close> consists of vowels only, in which case it is
  returned unchanged. Nothing is said of the words that hold one of those two letters.
\<close>

theorem disemvoweling_long_words:
  "(length w < 3 \<longrightarrow> disemvoweling w = w)
   \<and> (3 \<le> length w \<and> 0x130 \<notin> set w \<and> 0x131 \<notin> set w \<longrightarrow>
        disemvoweling w = Disemvowel_spec w)"
proof -
  have "disemvoweling w = w" if "length w < 3"
    using that by (simp add: disemvoweling_def)
  moreover have "disemvoweling w = Disemvowel_spec w"
    if "3 \<le> length w" "0x130 \<notin> set w" "0x131 \<notin> set w"
    using that disemvoweling_plain [of w] by simp
  ultimately show ?thesis by blast
qed

theorem disemvoweling_long_words_witness:
  "3 \<le> length (str ''like'') \<and> 0x130 \<notin> set (str ''like'') \<and> 0x131 \<notin> set (str ''like'')
   \<and> disemvoweling (str ''like'') = str ''lk''
   \<and> 3 \<le> length (str ''Aeiou'') \<and> 0x130 \<notin> set (str ''Aeiou'')
   \<and> 0x131 \<notin> set (str ''Aeiou'')
   \<and> disemvoweling (str ''Aeiou'') = str ''Aeiou''
   \<and> length (str ''at'') < 3 \<and> disemvoweling (str ''at'') = str ''at''"
  using disemvoweling_long_words [of "str ''like''"] disemvoweling_long_words [of "str ''Aeiou''"]
    disemvoweling_long_words [of "str ''at''"]
  by (simp add: Disemvowel_spec_def is_vowel_def str_def)

subsection \<open>The retry loop of \<^verbatim>\<open>intruders\<close>\<close>

lemma unit_interval_nonneg: "0 \<le> unit_interval r"
  by (simp add: unit_interval_def)

lemma unit_interval_less_1: "unit_interval r < 1"
  by (simp add: unit_interval_def)

lemma np_random_uniform_range:
  "np_random_uniform g = (u, g') \<Longrightarrow> 0 \<le> u \<and> u < 1"
  using unit_interval_nonneg [of "fst (np_next g)"] unit_interval_less_1 [of "fst (np_next g)"]
  by (auto simp: np_random_uniform_def split: prod.splits)

lemma intruders_scan_level_0:
  "perturbation_level \<le> 0 \<Longrightarrow>
   intruders_scan perturbation_level seed punct i chars g = (chars', g') \<Longrightarrow> chars' = chars"
proof (induction perturbation_level seed punct i chars g rule: intruders_scan.induct)
  case (1 perturbation_level seed punct i chars g)
  show ?case
  proof (cases "i < length chars")
    case False
    with "1.prems" show ?thesis
      by (simp add: intruders_scan.simps)
  next
    case True
    obtain u g1 where u: "np_random_uniform (np_random_seed seed g) = (u, g1)"
      by (cases "np_random_uniform (np_random_seed seed g)")
    have no: "\<not> u < perturbation_level"
      using np_random_uniform_range [OF u] "1.prems"(1) by simp
    with True u "1.prems"(2)
    have "intruders_scan perturbation_level seed punct (i + 1) chars g1 = (chars', g')"
      by (simp add: intruders_scan.simps [of perturbation_level seed punct i chars g])
    with "1.IH"(2) [OF True u [symmetric] no "1.prems"(1)] show ?thesis
      by simp
  qed
qed

lemma intruders_retry_unchanged_never_returns:
  assumes "intruders_retry word perturbation_level seed punct chars g = Some y"
  shows "\<not> (perturbation_level \<le> 0 \<and> chars = word)"
proof (rule intruders_retry.raw_induct
    [where P = "\<lambda>w l s p cs g y. \<not> (l \<le> 0 \<and> cs = w)", OF _ assms])
  fix retry :: "string \<Rightarrow> real \<Rightarrow> nat option \<Rightarrow> char \<Rightarrow> string \<Rightarrow> rand_state
                  \<Rightarrow> (string \<times> rand_state) option"
  fix w l s p cs g y
  assume IH: "\<And>w l s p cs g y. retry w l s p cs g = Some y \<Longrightarrow> \<not> (l \<le> 0 \<and> cs = w)"
    and body: "(case intruders_scan l s p 1 cs g of
                  (chars', g') \<Rightarrow>
                    if chars' = w then retry w l s p chars' g' else Some (chars', g')) = Some y"
  show "\<not> (l \<le> 0 \<and> cs = w)"
  proof
    assume lc: "l \<le> 0 \<and> cs = w"
    obtain chars' g' where sc: "intruders_scan l s p 1 cs g = (chars', g')"
      by (cases "intruders_scan l s p 1 cs g")
    with lc have same: "chars' = w"
      using intruders_scan_level_0 by blast
    with sc body have "retry w l s p chars' g' = Some y"
      by simp
    from IH [OF this] lc same show False by blast
  qed
qed

text \<open>
  C9. The loop \<^verbatim>\<open>while perturbed == word\<close> of \<^verbatim>\<open>intruders\<close> has no bound on its
  retries: with insertion probability 0, for every word of at least three characters
  that is not a piece of \<^verbatim>\<open>string.punctuation\<close>, every seed and every state of the
  generators, no scan inserts anything and \<^verbatim>\<open>intruders\<close> does not return.
\<close>

theorem intruders_level_0_diverges:
  "3 \<le> length word \<Longrightarrow> \<not> sublist word string_punctuation \<Longrightarrow> intruders word 0 seed g = None"
proof -
  assume len: "3 \<le> length word" and np: "\<not> sublist word string_punctuation"
  obtain punct g' where ch: "random_choice string_punctuation g = (punct, g')"
    by (cases "random_choice string_punctuation g")
  have "intruders_retry word 0 seed punct word g' = None"
    using intruders_retry_unchanged_never_returns [of word 0 seed punct word g']
    by (cases "intruders_retry word 0 seed punct word g'") auto
  with len np ch show ?thesis
    by (simp add: intruders_def)
qed


theorem intruders_level_0_diverges_witness:
  "3 \<le> length ''abc'' \<and> \<not> sublist ''abc'' string_punctuation
   \<and> intruders ''abc'' 0 None (const_rand 0) = None"
proof -
  have long: "3 \<le> length ''abc''" by simp
  have letters: "\<not> sublist ''abc'' string_punctuation" by code_simp
  from intruders_level_0_diverges [OF long letters] long letters show ?thesis
    by blast
qed

subsection \<open>The selection loop\<close>


lemma selector_iteration_step:
  assumes "selector_iteration NN typos method perturbation_level st = Some (Inr (index, st'))"
  shows "index = fst (np_random_choice (word_indexes st) (rng st))"
    and "word_indexes st' = remove1 index (word_indexes st)"
    and "perturbed_words st \<le> perturbed_words st'"
    and "perturbed_words st' \<le> perturbed_words st + 1"
    and "length (words st') = length (words st)"
  using assms
  by (auto simp: selector_iteration_def Let_def
           split: if_splits option.splits sum.splits prod.splits)

text \<open>The three ways a pass of the loop can go.\<close>

lemma attempted_stop:
  "\<not> (real (perturbed_words st) < perturb_target \<and> word_indexes st \<noteq> []) \<Longrightarrow>
   attempted NN typos method perturbation_level perturb_target st = []"
  by (subst attempted.simps) auto






lemma selector_loop_stop:
  "\<not> (real (perturbed_words st) < perturb_target \<and> word_indexes st \<noteq> []) \<Longrightarrow>
   selector_loop NN typos method perturbation_level perturb_target st = Some (Inr st)"
  by (subst selector_loop.simps) auto

lemma selector_loop_next:
  "real (perturbed_words st) < perturb_target \<Longrightarrow> word_indexes st \<noteq> [] \<Longrightarrow>
   selector_iteration NN typos method perturbation_level st = Some (Inr (index, st')) \<Longrightarrow>
   selector_loop NN typos method perturbation_level perturb_target st
     = selector_loop NN typos method perturbation_level perturb_target st'"
  by (subst selector_loop.simps) auto

lemma selector_loop_raise:
  "real (perturbed_words st) < perturb_target \<Longrightarrow> word_indexes st \<noteq> [] \<Longrightarrow>
   selector_iteration NN typos method perturbation_level st = Some (Inl e) \<Longrightarrow>
   selector_loop NN typos method perturbation_level perturb_target st = Some (Inl e)"
  by (subst selector_loop.simps) auto

lemma selector_loop_hang:
  "real (perturbed_words st) < perturb_target \<Longrightarrow> word_indexes st \<noteq> [] \<Longrightarrow>
   selector_iteration NN typos method perturbation_level st = None \<Longrightarrow>
   selector_loop NN typos method perturbation_level perturb_target st = None"
  by (subst selector_loop.simps) auto

lemma selector_iteration_shorter:
  assumes "selector_iteration NN typos method perturbation_level st = Some (Inr (index, st'))"
    and "word_indexes st \<noteq> []"
  shows "length (word_indexes st') < length (word_indexes st)"
  using selector_iteration_shrinks [OF assms(1)] assms(2) by simp

lemma selector_loop_budget:
  "int (perturbed_words st) \<le> \<lceil>perturb_target\<rceil> \<Longrightarrow>
   selector_loop NN typos method perturbation_level perturb_target st = Some (Inr st') \<Longrightarrow>
   int (perturbed_words st') \<le> \<lceil>perturb_target\<rceil>
   \<and> (\<not> real (perturbed_words st') < perturb_target \<or> word_indexes st' = [])"
proof (induction "length (word_indexes st)" arbitrary: st rule: less_induct)
  case less
  let ?loop = "selector_loop NN typos method perturbation_level perturb_target"
  show ?case
  proof (cases "real (perturbed_words st) < perturb_target \<and> word_indexes st \<noteq> []")
    case False
    then have "?loop st = Some (Inr st)" by (rule selector_loop_stop)
    with less.prems False show ?thesis by auto
  next
    case True
    show ?thesis
    proof (cases "selector_iteration NN typos method perturbation_level st")
      case None
      with True less.prems(2) show ?thesis by (simp add: selector_loop_hang)
    next
      case (Some r)
      show ?thesis
      proof (cases r)
        case (Inl e)
        with Some True less.prems(2) show ?thesis by (simp add: selector_loop_raise)
      next
        case (Inr p)
        obtain index st1 where it:
          "selector_iteration NN typos method perturbation_level st = Some (Inr (index, st1))"
          using Some Inr by (cases p) simp
        have "real (perturbed_words st) < perturb_target" using True by simp
        then have "int (perturbed_words st) < \<lceil>perturb_target\<rceil>"
          by (simp add: less_ceiling_iff)
        moreover have "perturbed_words st1 \<le> perturbed_words st + 1"
          using selector_iteration_step(4) [OF it] .
        ultimately have b1: "int (perturbed_words st1) \<le> \<lceil>perturb_target\<rceil>"
          by linarith
        have "?loop st1 = Some (Inr st')"
          using selector_loop_next [of st perturb_target NN typos "method" perturbation_level index st1]
            True it less.prems(2) by simp
        from less.hyps [OF selector_iteration_shorter [OF it] b1 this] show ?thesis
          using True by simp
      qed
    qed
  qed
qed

subsection \<open>Induction along the passes of the loop\<close>

lemma selector_loop_induct [case_names stop hang raise step]:
  assumes stop: "\<And>st. \<not> (real (perturbed_words st) < perturb_target \<and> word_indexes st \<noteq> [])
            \<Longrightarrow> P st (Some (Inr st))"
    and hang: "\<And>st. real (perturbed_words st) < perturb_target \<Longrightarrow> word_indexes st \<noteq> [] \<Longrightarrow>
            selector_iteration NN typos attack perturbation_level st = None \<Longrightarrow> P st None"
    and raise: "\<And>st e. real (perturbed_words st) < perturb_target \<Longrightarrow> word_indexes st \<noteq> [] \<Longrightarrow>
            selector_iteration NN typos attack perturbation_level st = Some (Inl e) \<Longrightarrow>
            P st (Some (Inl e))"
    and step: "\<And>st index st'.
            real (perturbed_words st) < perturb_target \<Longrightarrow> word_indexes st \<noteq> [] \<Longrightarrow>
            selector_iteration NN typos attack perturbation_level st = Some (Inr (index, st')) \<Longrightarrow>
            P st' (selector_loop NN typos attack perturbation_level perturb_target st') \<Longrightarrow>
            P st (selector_loop NN typos attack perturbation_level perturb_target st')"
  shows "P st (selector_loop NN typos attack perturbation_level perturb_target st)"
proof (induction "length (word_indexes st)" arbitrary: st rule: less_induct)
  case less
  let ?loop = "selector_loop NN typos attack perturbation_level perturb_target"
  show ?case
  proof (cases "real (perturbed_words st) < perturb_target \<and> word_indexes st \<noteq> []")
    case False
    then show ?thesis
      using stop [of st] by (simp add: selector_loop_stop)
  next
    case True
    show ?thesis
    proof (cases "selector_iteration NN typos attack perturbation_level st")
      case None
      with True show ?thesis
        using hang [of st] by (simp add: selector_loop_hang)
    next
      case (Some r)
      show ?thesis
      proof (cases r)
        case (Inl e)
        with Some True show ?thesis
          using raise [of st e] by (simp add: selector_loop_raise)
      next
        case (Inr p)
        obtain index st' where it:
          "selector_iteration NN typos attack perturbation_level st = Some (Inr (index, st'))"
          using Some Inr by (cases p) simp
        have "P st' (?loop st')"
          using less.hyps [OF selector_iteration_shorter [OF it]] True by simp
        then have "P st (?loop st')"
          using step [OF _ _ it] True by simp
        moreover have "?loop st = ?loop st'"
          using selector_loop_next [OF _ _ it] True by simp
        ultimately show ?thesis by simp
      qed
    qed
  qed
qed



subsection \<open>Errors of the transforms\<close>

lemma random_randint_error: "random_randint a b g = Inl e \<Longrightarrow> e = EmptyRange"
  by (auto simp: random_randint_def split: if_splits prod.splits)

lemma key_error: "key NN word probability g = Inl e \<Longrightarrow> e \<noteq> InvalidLevel"
  by (auto simp: key_def Let_def dest: random_randint_error
           split: prod.splits if_splits sum.splits option.splits)

lemma natural_error: "natural typos word precentage g = Inl e \<Longrightarrow> e \<noteq> InvalidLevel"
  by (auto simp: natural_def dest: random_randint_error
           split: prod.splits if_splits sum.splits option.splits)

lemma perturb_word_error:
  "perturb_word NN typos method perturbation_level word g = Some (Inl e) \<Longrightarrow> e \<noteq> InvalidLevel"
  by (cases "method") (auto simp: perturb_word_def dest: key_error natural_error)

lemma selector_iteration_error:
  "selector_iteration NN typos method perturbation_level st = Some (Inl e) \<Longrightarrow> e \<noteq> InvalidLevel"
  by (auto simp: selector_iteration_def Let_def dest: perturb_word_error
           split: prod.splits if_splits sum.splits option.splits)

lemma selector_loop_error:
  "selector_loop NN typos method perturbation_level perturb_target st \<noteq> Some (Inl InvalidLevel)"
proof (induction st rule: selector_loop_induct
         [where NN = NN and typos = typos and attack = "method"
            and perturbation_level = perturbation_level and perturb_target = perturb_target])
  case (raise st e)
  then show ?case by (auto dest: selector_iteration_error)
qed simp_all

subsection \<open>When the transforms return\<close>








subsection \<open>The counter counts the changed words\<close>

lemma changed_positions_card:
  "length (changed_positions tokens ws) = card {i. i < length tokens \<and> ws ! i \<noteq> tokens ! i}"
proof -
  have "distinct (changed_positions tokens ws)"
    by (simp add: changed_positions_def)
  then have "length (changed_positions tokens ws) = card (set (changed_positions tokens ws))"
    by (simp add: distinct_card)
  also have "set (changed_positions tokens ws) = {i. i < length tokens \<and> ws ! i \<noteq> tokens ! i}"
    by (auto simp: changed_positions_def)
  finally show ?thesis .
qed

lemma changed_positions_update:
  assumes "index < length tokens" and "length ws = length tokens"
    and "ws ! index = tokens ! index"
  shows "length (changed_positions tokens (ws[index := w]))
           = length (changed_positions tokens ws) + (if w \<noteq> ws ! index then 1 else 0)"
proof -
  let ?C = "{i. i < length tokens \<and> ws ! i \<noteq> tokens ! i}"
  let ?C' = "{i. i < length tokens \<and> ws[index := w] ! i \<noteq> tokens ! i}"
  have fin: "finite ?C" by simp
  have out: "index \<notin> ?C" using assms(3) by simp
  have "?C' = (if w \<noteq> ws ! index then insert index ?C else ?C)"
    using assms by (auto simp: nth_list_update)
  then have "card ?C' = card ?C + (if w \<noteq> ws ! index then 1 else 0)"
    using fin out by simp
  then show ?thesis
    by (simp only: changed_positions_card)
qed

lemma selector_iteration_words:
  assumes "selector_iteration NN typos m perturbation_level st = Some (Inr (index, st'))"
  shows "\<exists>w. index < length (words st) \<and> words st' = (words st)[index := w]
           \<and> perturbed_words st'
               = perturbed_words st + (if w \<noteq> words st ! index then 1 else 0)"
proof -
  obtain i g1 where ch: "np_random_choice (word_indexes st) (rng st) = (i, g1)"
    by (cases "np_random_choice (word_indexes st) (rng st)")
  with assms have lt: "i < length (words st)"
    by (auto simp: selector_iteration_def Let_def split: if_splits)
  with assms ch obtain w g2 where
    pw: "perturb_word NN typos m perturbation_level (words st ! i) g1 = Some (Inr (w, g2))"
    by (auto simp: selector_iteration_def Let_def split: option.splits sum.splits)
  define st1 where "st1 =
    \<lparr>words = (words st)[i := w], word_indexes = remove1 i (word_indexes st),
     perturbed_words = perturbed_words st + (if w \<noteq> words st ! i then 1 else 0), rng = g2\<rparr>"
  have "selector_iteration NN typos m perturbation_level st = Some (Inr (i, st1))"
    using ch lt pw by (simp add: selector_iteration_def Let_def st1_def)
  with assms have "index = i" and "st' = st1"
    by simp_all
  moreover have "words st1 = (words st)[i := w]"
    and "perturbed_words st1 = perturbed_words st + (if w \<noteq> words st ! i then 1 else 0)"
    by (simp_all add: st1_def)
  ultimately show ?thesis
    using lt by blast
qed

lemma counts_changes_start: "counts_changes tokens (selector_start tokens g)"
  by (simp add: counts_changes_def selector_start_def changed_positions_def list_all_iff)

lemma counts_changes_step:
  assumes inv: "counts_changes tokens st" and pool: "word_indexes st \<noteq> []"
    and it: "selector_iteration NN typos m perturbation_level st = Some (Inr (index, st'))"
  shows "counts_changes tokens st'"
proof -
  from selector_iteration_words [OF it] obtain w where
    ws: "words st' = (words st)[index := w]"
    and cnt: "perturbed_words st' = perturbed_words st + (if w \<noteq> words st ! index then 1 else 0)"
    by blast
  have mem: "index \<in> set (word_indexes st)"
    and pool': "word_indexes st' = remove1 index (word_indexes st)"
    using selector_iteration_pool [OF it] pool by simp_all
  from inv have len: "length (words st) = length tokens"
    and d: "distinct (word_indexes st)"
    and sub: "set (word_indexes st) \<subseteq> {0 ..< length tokens}"
    and same: "\<forall>i\<in>set (word_indexes st). words st ! i = tokens ! i"
    and count: "perturbed_words st = length (changed_positions tokens (words st))"
    by (simp_all add: counts_changes_def list_all_iff)
  have idx: "index < length tokens" using mem sub by auto
  have here: "words st ! index = tokens ! index" using mem same by simp
  have "length (words st') = length tokens" using ws len by simp
  moreover have "distinct (word_indexes st')" using pool' d by simp
  moreover have "set (word_indexes st') \<subseteq> {0 ..< length tokens}"
    using pool' sub set_remove1_subset [of index "word_indexes st"] by auto
  moreover have "\<forall>i\<in>set (word_indexes st'). words st' ! i = tokens ! i"
  proof
    fix i assume i: "i \<in> set (word_indexes st')"
    then have "i \<noteq> index" "i \<in> set (word_indexes st)"
      using pool' d by auto
    then show "words st' ! i = tokens ! i"
      using ws same by simp
  qed
  moreover have "perturbed_words st' = length (changed_positions tokens (words st'))"
    using changed_positions_update [OF idx len here, of w] cnt count ws by simp
  ultimately show ?thesis
    by (simp add: counts_changes_def list_all_iff)
qed

lemma selector_loop_counts_changes:
  "counts_changes tokens st \<Longrightarrow>
   selector_loop NN typos m perturbation_level perturb_target st = Some (Inr st') \<Longrightarrow>
   counts_changes tokens st'"
proof (induction st rule: selector_loop_induct
         [where NN = NN and typos = typos and attack = m
            and perturbation_level = perturbation_level and perturb_target = perturb_target])
  case (step st index st1)
  from counts_changes_step [OF step(5) step(2) step(3)] step(4) step(6) show ?case
    by simp
qed simp_all

subsection \<open>Rounding to a double\<close>

lemma round_half_even_eq:
  "of_int k - 1/2 < x \<Longrightarrow> x < of_int k + 1/2 \<Longrightarrow> round_half_even x = k"
proof -
  assume lo: "of_int k - 1/2 < x" and hi: "x < of_int k + 1/2"
  show ?thesis
  proof (cases "of_int k \<le> x")
    case True
    then have fl: "\<lfloor>x\<rfloor> = k" using hi by (intro floor_unique) auto
    then have "frac x < 1/2" using hi by (simp add: frac_def)
    then show ?thesis by (simp add: round_half_even_def fl)
  next
    case False
    then have fl: "\<lfloor>x\<rfloor> = k - 1" using lo by (intro floor_unique) auto
    then have fr: "frac x > 1/2" using lo by (simp add: frac_def)
    have "\<lceil>x\<rceil> = k" using lo False by (intro ceiling_unique) auto
    with fr show ?thesis by (simp add: round_half_even_def)
  qed
qed

lemma binade_eq:
  assumes "2 powi e \<le> x" and "x < 2 powi (e + 1)" and "- 1022 \<le> e"
  shows "binade x = e"
proof -
  have pos: "0 < x" using assms(1) by (smt (verit) zero_less_power_int)
  have lo: "2 powr real_of_int e = (2::real) powi e"
    by (rule powr_real_of_int') simp_all
  have "2 powr real_of_int (e + 1) = (2::real) powi (e + 1)"
    by (rule powr_real_of_int') simp_all
  then have hi: "2 powr (real_of_int e + 1) = (2::real) powi (e + 1)"
    by (simp only: of_int_add of_int_1)
  have "2 powr real_of_int e \<le> x \<and> x < 2 powr (real_of_int e + 1)"
    using assms(1,2) by (simp only: lo hi)
  then have "\<lfloor>log 2 x\<rfloor> = e"
    using pos by (simp add: floor_log_eq_powr_iff)
  with pos assms(3) show ?thesis by (simp add: binade_def)
qed

lemma to_double_eq:
  assumes "2 powi e \<le> x" and "x < 2 powi (e + 1)" and "- 1022 \<le> e"
    and "of_int k - 1/2 < x / 2 powi (e - 52)" and "x / 2 powi (e - 52) < of_int k + 1/2"
  shows "to_double x = of_int k * 2 powi (e - 52)"
proof -
  have pos: "0 < x" using assms(1) by (smt (verit) zero_less_power_int)
  with binade_eq [OF assms(1-3)] round_half_even_eq [OF assms(4,5)] show ?thesis
    by (simp add: to_double_def)
qed

lemma to_double_0: "to_double 0 = 0" by (simp add: to_double_def)

text \<open>
  The doubles \<open>0.3\<close>, \<open>0.1\<close> and \<open>0.28\<close>, and the products \<^verbatim>\<open>4 * 0.3\<close>,
  \<^verbatim>\<open>10 * 0.1\<close> and \<^verbatim>\<open>25 * 0.28\<close> as Python computes them: the double next below
  \<open>1.2\<close>; exactly 1, although the double \<open>0.1\<close> is above one tenth; and
  \<open>7 + 2\<^sup>-\<^sup>5\<^sup>0\<close>.
\<close>

lemma double_0_3: "to_double (3/10) = 5404319552844595 / 18014398509481984"
  using to_double_eq [of "-2" "3/10" 5404319552844595] by (simp add: power_int_minus)

lemma double_4_times_0_3: "to_double (4 * (5404319552844595 / 18014398509481984)) = 5404319552844595 / 4503599627370496"
  using to_double_eq [of 0 "4 * (5404319552844595 / 18014398509481984)" 5404319552844595]
  by (simp add: power_int_minus)

lemma double_0_1: "to_double (1/10) = 3602879701896397 / 36028797018963968"
  using to_double_eq [of "-4" "1/10" 7205759403792794] by (simp add: power_int_minus)

lemma double_10_times_0_1: "to_double (10 * (3602879701896397 / 36028797018963968)) = 1"
  using to_double_eq [of 0 "10 * (3602879701896397 / 36028797018963968)" 4503599627370496]
  by (simp add: power_int_minus)

lemma double_0_28: "to_double (28/100) = 1261007895663739 / 4503599627370496"
  using to_double_eq [of "-2" "28/100" 5044031582654956] by (simp add: power_int_minus)

lemma double_25_times_0_28: "to_double (25 * (1261007895663739 / 4503599627370496)) = 7881299347898369 / 1125899906842624"
  using to_double_eq [of 2 "25 * (1261007895663739 / 4503599627370496)" 7881299347898369]
  by (simp add: power_int_minus)


subsection \<open>The budget of the selection loop\<close>

text \<open>
  A run on the four tokens of \<^verbatim>\<open>like apples very much\<close> with the method
  \<^verbatim>\<open>disemvowel\<close>, the double \<open>0.3\<close> as level and generators that always pick the
  first index left: \<^verbatim>\<open>perturb_target\<close> is the double next below \<open>1.2\<close>, and two
  words are changed.
\<close>

lemma np_next_const_rand: "np_next (const_rand r) = (r, const_rand r)"
  by (simp add: np_next_def const_rand_def)

lemma py_next_const_rand: "py_next (const_rand r) = (r, const_rand r)"
  by (simp add: py_next_def const_rand_def)

lemma four_tokens_target:
  "perturb_target_of [''like'', ''apples'', ''very'', ''much''] (to_double (3/10))
     = 5404319552844595 / 4503599627370496"
  using double_4_times_0_3 by (simp add: perturb_target_of_def double_0_3)

lemma disemvowel_passes:
  "selector_iteration Map.empty Map.empty DISEMVOWEL l
     \<lparr>words = [''like'', ''apples'', ''very'', ''much''], word_indexes = [0, 1, 2, 3],
      perturbed_words = 0, rng = const_rand 0\<rparr>
   = Some (Inr (0, \<lparr>words = [''lk'', ''apples'', ''very'', ''much''], word_indexes = [1, 2, 3],
                     perturbed_words = 1, rng = const_rand 0\<rparr>))"
  "selector_iteration Map.empty Map.empty DISEMVOWEL l
     \<lparr>words = [''lk'', ''apples'', ''very'', ''much''], word_indexes = [1, 2, 3],
      perturbed_words = 1, rng = const_rand 0\<rparr>
   = Some (Inr (1, \<lparr>words = [''lk'', ''ppls'', ''very'', ''much''], word_indexes = [2, 3],
                     perturbed_words = 2, rng = const_rand 0\<rparr>))"
  by (simp_all add: selector_iteration_def np_random_choice_def np_next_const_rand
        perturb_word_def disemvoweling_examples)

lemma disemvowel_run:
  "selector_loop Map.empty Map.empty DISEMVOWEL (to_double (3/10))
     (perturb_target_of [''like'', ''apples'', ''very'', ''much''] (to_double (3/10)))
     (selector_start [''like'', ''apples'', ''very'', ''much''] (const_rand 0))
   = Some (Inr \<lparr>words = [''lk'', ''ppls'', ''very'', ''much''], word_indexes = [2, 3],
                 perturbed_words = 2, rng = const_rand 0\<rparr>)"
proof -
  let ?loop = "selector_loop Map.empty Map.empty DISEMVOWEL (to_double (3/10))
                 (5404319552844595 / 4503599627370496)"
  let ?s0 = "\<lparr>words = [''like'', ''apples'', ''very'', ''much''], word_indexes = [0, 1, 2, 3],
             perturbed_words = 0, rng = const_rand 0\<rparr>"
  let ?s1 = "\<lparr>words = [''lk'', ''apples'', ''very'', ''much''], word_indexes = [1, 2, 3],
             perturbed_words = 1, rng = const_rand 0\<rparr>"
  let ?s2 = "\<lparr>words = [''lk'', ''ppls'', ''very'', ''much''], word_indexes = [2, 3],
             perturbed_words = 2, rng = const_rand 0\<rparr>"
  have start: "selector_start [''like'', ''apples'', ''very'', ''much''] (const_rand 0) = ?s0"
    by (simp add: selector_start_def upt_rec)
  have "?loop ?s0 = ?loop ?s1"
    by (rule selector_loop_next [OF _ _ disemvowel_passes(1)]) simp_all
  also have "\<dots> = ?loop ?s2"
    by (rule selector_loop_next [OF _ _ disemvowel_passes(2)]) simp_all
  also have "\<dots> = Some (Inr ?s2)"
    by (rule selector_loop_stop) simp
  finally show ?thesis
    by (simp only: start four_tokens_target)
qed

text \<open>
  C1, as the specification states it, fails: \<^verbatim>\<open>perturb_target\<close> is the product
  \<^verbatim>\<open>len(words) * perturbation_level\<close> and is not rounded to a whole number. On four
  tokens at level \<open>0.3\<close> the rounded product is 1, but after one changed word the
  test \<^verbatim>\<open>perturbed_words < perturb_target\<close> still holds and the loop goes on: it
  changes two words.
\<close>

theorem budget_is_not_rounded_counterexample:
  "round (perturb_target_of [''like'', ''apples'', ''very'', ''much''] (to_double (3/10))) = 1
   \<and> selector_loop Map.empty Map.empty DISEMVOWEL (to_double (3/10))
         (perturb_target_of [''like'', ''apples'', ''very'', ''much''] (to_double (3/10)))
         (selector_start [''like'', ''apples'', ''very'', ''much''] (const_rand 0))
       = Some (Inr \<lparr>words = [''lk'', ''ppls'', ''very'', ''much''], word_indexes = [2, 3],
                     perturbed_words = 2, rng = const_rand 0\<rparr>)"
  using disemvowel_run by (simp add: four_tokens_target round_def)

text \<open>
  C1, amended. The budget of the loop in \<^verbatim>\<open>simple_perturb\<close> is the floating-point
  product of the number \<open>N\<close> of tokens and the level \<open>L\<close>, not rounded to a whole
  number, and the loop makes a further pass exactly while the number of changed words
  is below it and an index is left. So for every level, method, table and state of the
  generators, when the loop returns the counter is the number of positions whose word
  differs from the token, and it is the least whole number that is not below the
  product, unless the pool is used up with fewer words changed than the product.
\<close>

theorem budget_is_the_product:
  assumes "selector_loop NN typos m perturbation_level
           (perturb_target_of tokens perturbation_level) (selector_start tokens g)
         = Some (Inr st')"
  shows "perturb_target_of tokens perturbation_level
           = to_double (real (length tokens) * perturbation_level)
    \<and> perturbed_words st' = length (changed_positions tokens (words st'))
    \<and> (perturbed_words st' = nat \<lceil>perturb_target_of tokens perturbation_level\<rceil>
        \<or> word_indexes st' = []
          \<and> real (perturbed_words st') < perturb_target_of tokens perturbation_level)"
proof -
  let ?t = "perturb_target_of tokens perturbation_level"
  let ?st = "selector_start tokens g"
  have changes: "perturbed_words st' = length (changed_positions tokens (words st'))"
    using selector_loop_counts_changes [OF counts_changes_start assms]
    by (simp add: counts_changes_def)
  have budget: "perturbed_words st' = nat \<lceil>?t\<rceil>
        \<or> word_indexes st' = [] \<and> real (perturbed_words st') < ?t"
  proof (cases "0 < ?t")
    case False
    then have "selector_loop NN typos m perturbation_level ?t ?st = Some (Inr ?st)"
      by (intro selector_loop_stop) (simp add: selector_start_def)
    with assms have "st' = ?st" by simp
    with False show ?thesis by (simp add: selector_start_def)
  next
    case True
    then have "0 \<le> \<lceil>?t\<rceil>" by (simp add: le_ceiling_iff)
    then have "int (perturbed_words ?st) \<le> \<lceil>?t\<rceil>"
      by (simp add: selector_start_def)
    from selector_loop_budget [OF this assms]
    have le: "int (perturbed_words st') \<le> \<lceil>?t\<rceil>"
      and stop: "\<not> real (perturbed_words st') < ?t \<or> word_indexes st' = []"
      by simp_all
    show ?thesis
    proof (cases "real (perturbed_words st') < ?t")
      case True
      with stop show ?thesis by simp
    next
      case False
      then have "\<lceil>?t\<rceil> \<le> int (perturbed_words st')"
        by (simp add: ceiling_le_iff)
      with le have "int (perturbed_words st') = \<lceil>?t\<rceil>" by simp
      then have "perturbed_words st' = nat \<lceil>?t\<rceil>" by simp
      then show ?thesis by simp
    qed
  qed
  from changes budget show ?thesis
    by (simp add: perturb_target_of_def)
qed


text \<open>
  Ten tokens at level \<open>0.1\<close>: the product is the double 1, and the loop stops after one
  changed word with nine indexes left.
\<close>

lemma ten_tokens_target:
  "perturb_target_of [''like'', ''apples'', ''very'', ''much'', ''and'', ''pears'', ''too'', ''but'', ''not'', ''figs''] (to_double (1/10)) = 1"
  using double_10_times_0_1 by (simp add: perturb_target_of_def double_0_1)

lemma ten_tokens_run:
  "selector_loop Map.empty Map.empty DISEMVOWEL (to_double (1/10))
     (perturb_target_of [''like'', ''apples'', ''very'', ''much'', ''and'', ''pears'', ''too'', ''but'', ''not'', ''figs''] (to_double (1/10)))
     (selector_start [''like'', ''apples'', ''very'', ''much'', ''and'', ''pears'', ''too'', ''but'', ''not'', ''figs''] (const_rand 0))
   = Some (Inr \<lparr>words = [''lk'', ''apples'', ''very'', ''much'', ''and'', ''pears'', ''too'', ''but'', ''not'', ''figs''], word_indexes = [1, 2, 3, 4, 5, 6, 7, 8, 9],
                 perturbed_words = 1, rng = const_rand 0\<rparr>)"
proof -
  let ?loop = "selector_loop Map.empty Map.empty DISEMVOWEL (to_double (1/10)) 1"
  let ?s0 = "\<lparr>words = [''like'', ''apples'', ''very'', ''much'', ''and'', ''pears'', ''too'', ''but'', ''not'', ''figs''], word_indexes = [0, 1, 2, 3, 4, 5, 6, 7, 8, 9],
             perturbed_words = 0, rng = const_rand 0\<rparr>"
  let ?s1 = "\<lparr>words = [''lk'', ''apples'', ''very'', ''much'', ''and'', ''pears'', ''too'', ''but'', ''not'', ''figs''], word_indexes = [1, 2, 3, 4, 5, 6, 7, 8, 9],
             perturbed_words = 1, rng = const_rand 0\<rparr>"
  have start: "selector_start [''like'', ''apples'', ''very'', ''much'', ''and'', ''pears'', ''too'', ''but'', ''not'', ''figs''] (const_rand 0) = ?s0"
    by (simp add: selector_start_def upt_rec)
  have pass: "selector_iteration Map.empty Map.empty DISEMVOWEL (to_double (1/10)) ?s0
                = Some (Inr (0, ?s1))"
    by (simp add: selector_iteration_def np_random_choice_def np_next_const_rand
          perturb_word_def disemvoweling_examples)
  have "?loop ?s0 = ?loop ?s1"
    by (rule selector_loop_next [OF _ _ pass]) simp_all
  also have "\<dots> = Some (Inr ?s1)"
    by (rule selector_loop_stop) simp
  finally show ?thesis
    by (simp only: start ten_tokens_target)
qed

theorem budget_is_the_product_witness:
  "selector_loop Map.empty Map.empty DISEMVOWEL (to_double (1/10))
     (perturb_target_of [''like'', ''apples'', ''very'', ''much'', ''and'', ''pears'', ''too'', ''but'', ''not'', ''figs''] (to_double (1/10)))
     (selector_start [''like'', ''apples'', ''very'', ''much'', ''and'', ''pears'', ''too'', ''but'', ''not'', ''figs''] (const_rand 0))
   = Some (Inr \<lparr>words = [''lk'', ''apples'', ''very'', ''much'', ''and'', ''pears'', ''too'', ''but'', ''not'', ''figs''], word_indexes = [1, 2, 3, 4, 5, 6, 7, 8, 9],
                 perturbed_words = 1, rng = const_rand 0\<rparr>)
   \<and> perturb_target_of [''like'', ''apples'', ''very'', ''much'', ''and'', ''pears'', ''too'', ''but'', ''not'', ''figs''] (to_double (1/10)) = 1
   \<and> length (changed_positions [''like'', ''apples'', ''very'', ''much'', ''and'', ''pears'', ''too'', ''but'', ''not'', ''figs''] [''lk'', ''apples'', ''very'', ''much'', ''and'', ''pears'', ''too'', ''but'', ''not'', ''figs'']) = 1
   \<and> nat \<lceil>1 :: real\<rceil> = 1"
  using budget_is_the_product [OF ten_tokens_run] ten_tokens_run ten_tokens_target
  by simp

subsection \<open>Each position is attempted at most once\<close>

lemma selector_start_fields:
  "word_indexes (selector_start tokens g) = [0 ..< length tokens]"
  "perturbed_words (selector_start tokens g) = 0"
  "words (selector_start tokens g) = tokens"
  "rng (selector_start tokens g) = g"
  by (simp_all add: selector_start_def)

















subsection \<open>Level 0\<close>

lemma fromString_examples:
  "fromString ''full-swap'' = Inr SWAP_FULL" "fromString ''intrude'' = Inr INTRUDE"
  by (simp_all add: fromString_def)

lemma blank_examples:
  "blank_tokenize ''a  b'' = [''a'', ''b'']" "blank_tokenize ''a b'' = [''a'', ''b'']"
  "blank_detokenize [''a'', ''b''] = ''a b''"
  by (simp_all add: blank_tokenize_def)

lemma level_0_stops:
  "\<not> (real (perturbed_words (selector_start tokens g)) < perturb_target_of tokens 0
      \<and> word_indexes (selector_start tokens g) \<noteq> [])"
  by (simp add: perturb_target_of_def to_double_0)

lemma full_swap_level_0:
  "simple_perturb tokenize detokenize NN typos text (Inl ''full-swap'') 0 g
     = Some (Inr (detokenize (tokenize text), g))"
proof -
  have "selector_loop NN typos SWAP_FULL 0 (perturb_target_of (tokenize text) 0)
          (selector_start (tokenize text) g) = Some (Inr (selector_start (tokenize text) g))"
    using level_0_stops by (rule selector_loop_stop)
  then show ?thesis
    by (simp add: simple_perturb_def resolve_method_def fromString_examples
          selector_start_fields)
qed

text \<open>
  C7, as the specification states it, fails: the text returned is the detokenized token
  sequence, which need not be the text given. With a tokenizer that splits at blanks and
  a detokenizer that joins with one blank, as NLTK does on words of letters, the text
  \<^verbatim>\<open>a  b\<close> with two blanks comes back as \<^verbatim>\<open>a b\<close>.
\<close>

theorem full_swap_level_0_counterexample:
  "simple_perturb blank_tokenize blank_detokenize Map.empty Map.empty ''a  b''
     (Inl ''full-swap'') 0 (const_rand 0) = Some (Inr (''a b'', const_rand 0))
   \<and> ''a b'' \<noteq> ''a  b''"
  by (simp add: full_swap_level_0 blank_examples)

text \<open>
  C7, amended. For every text, \<^verbatim>\<open>simple_perturb(text, "full-swap", 0.0)\<close> attempts no
  mutation, since the target is 0, and returns the detokenization of the unchanged
  tokens of the text; this is the text itself whenever detokenizing its tokens gives
  the text back.
\<close>

theorem full_swap_level_0_keeps_tokens:
  "simple_perturb tokenize detokenize NN typos text (Inl ''full-swap'') 0 g
     = Some (Inr (detokenize (tokenize text), g))
   \<and> attempted NN typos SWAP_FULL 0 (perturb_target_of (tokenize text) 0)
       (selector_start (tokenize text) g) = []
   \<and> (detokenize (tokenize text) = text \<longrightarrow>
        simple_perturb tokenize detokenize NN typos text (Inl ''full-swap'') 0 g
          = Some (Inr (text, g)))"
proof -
  have "attempted NN typos SWAP_FULL 0 (perturb_target_of (tokenize text) 0)
          (selector_start (tokenize text) g) = []"
    using level_0_stops by (rule attempted_stop)
  then show ?thesis
    by (simp add: full_swap_level_0)
qed

theorem full_swap_level_0_keeps_tokens_witness:
  "blank_detokenize (blank_tokenize ''a b'') = ''a b''
   \<and> simple_perturb blank_tokenize blank_detokenize Map.empty Map.empty ''a b''
       (Inl ''full-swap'') 0 (const_rand 0) = Some (Inr (''a b'', const_rand 0))"
  using full_swap_level_0_keeps_tokens
    [of blank_tokenize blank_detokenize Map.empty Map.empty "''a b''" "const_rand 0"]
  by (simp add: blank_examples)

subsection \<open>Validation of the level\<close>

text \<open>
  C8. For every recognized method (a \<open>SimpleAttack\<close>, or a string that \<open>fromString\<close>
  converts) and every text, \<^verbatim>\<open>simple_perturb\<close> fails with the invalid-level error
  exactly when the level is outside \<open>[0, 1]\<close>; so it does at level \<open>1.5\<close> with
  \<^verbatim>\<open>"intrude"\<close>, and no call with \<open>0 \<le> level \<le> 1\<close> ends in that error.
\<close>

theorem invalid_level_exactly_outside_unit_interval:
  assumes "resolve_method method = Inr m"
  shows "simple_perturb tokenize detokenize NN typos text method perturbation_level g
           = Some (Inl InvalidLevel)
         \<longleftrightarrow> \<not> (0 \<le> perturbation_level \<and> perturbation_level \<le> 1)"
proof (cases "0 \<le> perturbation_level \<and> perturbation_level \<le> 1")
  case False
  with assms show ?thesis
    by (simp add: simple_perturb_def)
next
  case True
  have "selector_loop NN typos m perturbation_level
          (perturb_target_of (tokenize text) perturbation_level)
          (selector_start (tokenize text) g) \<noteq> Some (Inl InvalidLevel)"
    by (rule selector_loop_error)
  with True assms show ?thesis
    by (auto simp: simple_perturb_def split: option.splits sum.splits)
qed

theorem invalid_level_exactly_outside_unit_interval_witness:
  "resolve_method (Inl ''intrude'') = Inr INTRUDE
   \<and> simple_perturb blank_tokenize blank_detokenize Map.empty Map.empty ''a b''
       (Inl ''intrude'') (3/2) (const_rand 0) = Some (Inl InvalidLevel)
   \<and> simple_perturb blank_tokenize blank_detokenize Map.empty Map.empty ''a b''
       (Inl ''intrude'') 1 (const_rand 0) \<noteq> Some (Inl InvalidLevel)"
proof -
  have known: "resolve_method (Inl ''intrude'') = Inr INTRUDE"
    by (simp add: resolve_method_def fromString_examples)
  from invalid_level_exactly_outside_unit_interval [OF known, of blank_tokenize blank_detokenize
        Map.empty Map.empty "''a b''" "3/2" "const_rand 0"]
    invalid_level_exactly_outside_unit_interval [OF known, of blank_tokenize blank_detokenize
        Map.empty Map.empty "''a b''" 1 "const_rand 0"]
    known
  show ?thesis by simp
qed


subsection \<open>The keyboard typo and the case of the character\<close>

lemma random_random_const: "random_random (const_rand 0) = (0, const_rand 0)"
  by (simp add: random_random_def py_next_const_rand unit_interval_def)

lemma randint_const: "0 \<le> b \<Longrightarrow> random_randint 0 b (const_rand 0) = Inr (0, const_rand 0)"
  by (simp add: random_randint_def py_next_const_rand)

text \<open>
  C2 asks for a case-insensitive lookup and for a replacement that keeps the upper case.
  The code tests \<^verbatim>\<open>char in NN\<close> with the character as it is and indexes the table with
  \<^verbatim>\<open>char.lower()\<close>, and it drops the result of \<^verbatim>\<open>word[i].upper()\<close>. So with a table
  of lower-case keys the word \<^verbatim>\<open>A\<close> is returned unchanged although \<^verbatim>\<open>a\<close> has a
  neighbour; with a table that also has the key \<^verbatim>\<open>A\<close> it becomes the lower-case
  neighbour \<^verbatim>\<open>s\<close> of \<^verbatim>\<open>a\<close>, not \<^verbatim>\<open>S\<close>. A lower-case \<^verbatim>\<open>a\<close> is replaced as claimed.
\<close>

theorem key_loses_upper_case:
  "key table_a ''A'' 1 (const_rand 0) = Inr (''A'', const_rand 0)
   \<and> key table_aA ''A'' 1 (const_rand 0) = Inr (''s'', const_rand 0)
   \<and> key table_a ''a'' 1 (const_rand 0) = Inr (''s'', const_rand 0)"
  by (simp add: key_def random_random_const randint_const table_a_def table_aA_def
        lower_def ascii_lowercase_def ascii_uppercase_def)

subsection \<open>The probability gates of the typo transforms\<close>

lemma unit_interval_le_1: "\<not> unit_interval r > 1"
  using unit_interval_less_1 [of r] by simp

lemma random_random_gate: "\<not> fst (random_random g) > 1"
  by (simp add: random_random_def unit_interval_le_1 split: prod.split)

lemma random_randint_range:
  "random_randint a b g = Inr (i, g') \<Longrightarrow> a \<le> i \<and> i \<le> b"
proof -
  assume r: "random_randint a b g = Inr (i, g')"
  then have ab: "a \<le> b"
    by (auto simp: random_randint_def split: if_splits)
  obtain n g1 where n: "py_next g = (n, g1)" by (cases "py_next g")
  have "n mod nat (b - a + 1) < nat (b - a + 1)"
    using ab by simp
  then have "int (n mod nat (b - a + 1)) \<le> b - a"
    using ab by linarith
  with r ab n show ?thesis
    by (auto simp: random_randint_def)
qed

lemma replace_nth_same:
  assumes "k < length w" and "take k w @ n @ drop (Suc k) w = w"
  shows "n = [w ! k]"
proof -
  have "w = take k w @ [w ! k] @ drop (Suc k) w"
    using id_take_nth_drop [OF assms(1)] by simp
  with assms(2) have "take k w @ n @ drop (Suc k) w = take k w @ [w ! k] @ drop (Suc k) w"
    by simp
  then show ?thesis by simp
qed

lemma key_unchanged:
  assumes same: "key NN word 1 g = Inr (word, g')"
  shows "\<exists>i g2. random_randint 0 (int (length word) - 1) (snd (random_random g)) = Inr (i, g2)
           \<and> (NN [word ! nat i] = None
               \<or> (\<exists>neighbours. NN [lower (word ! nat i)] = Some neighbours
                      \<and> [word ! nat i] \<in> set neighbours))"
proof -
  obtain p g1 where p: "random_random g = (p, g1)" by (cases "random_random g")
  have gate: "\<not> p > 1" using random_random_gate [of g] p by simp
  from same p gate obtain i g2 where
    i: "random_randint 0 (int (length word) - 1) g1 = Inr (i, g2)"
    by (cases "random_randint 0 (int (length word) - 1) g1") (auto simp: key_def)
  have range: "0 \<le> i \<and> i \<le> int (length word) - 1"
    using random_randint_range [OF i] .
  then have k: "nat i < length word" by linarith
  show ?thesis
  proof (cases "NN [word ! nat i]")
    case None
    with i p show ?thesis by simp
  next
    case (Some entry)
    with same p gate i obtain neighbours where
      ns: "NN [lower (word ! nat i)] = Some neighbours"
      by (cases "NN [lower (word ! nat i)]") (auto simp: key_def Let_def)
    with same p gate i Some obtain j g3 where
      j: "random_randint 0 (int (length neighbours) - 1) g2 = Inr (j, g3)"
      by (cases "random_randint 0 (int (length neighbours) - 1) g2") (auto simp: key_def Let_def)
    have "0 \<le> j \<and> j \<le> int (length neighbours) - 1"
      using random_randint_range [OF j] .
    then have "nat j < length neighbours" by linarith
    then have mem: "neighbours ! nat j \<in> set neighbours" by simp
    from same p gate i Some ns j
    have "take (nat i) word @ neighbours ! nat j @ drop (Suc (nat i)) word = word"
      by (simp add: key_def Let_def)
    from replace_nth_same [OF k this] have "neighbours ! nat j = [word ! nat i]" .
    with mem have "[word ! nat i] \<in> set neighbours" by simp
    with ns i p show ?thesis by simp
  qed
qed

lemma natural_unchanged:
  assumes same: "natural typos word 1 g = Inr (word, g')"
  shows "typos word = None \<or> (\<exists>variants. typos word = Some variants \<and> word \<in> set variants)"
proof (cases "typos word")
  case None
  then show ?thesis by simp
next
  case (Some variants)
  obtain p g1 where p: "random_random g = (p, g1)" by (cases "random_random g")
  have gate: "\<not> p > 1" using random_random_gate [of g] p by simp
  from same p gate Some obtain j g2 where
    j: "random_randint 0 (int (length variants) - 1) g1 = Inr (j, g2)"
    by (cases "random_randint 0 (int (length variants) - 1) g1") (auto simp: natural_def)
  have "0 \<le> j \<and> j \<le> int (length variants) - 1"
    using random_randint_range [OF j] .
  then have "nat j < length variants" by linarith
  then have mem: "variants ! nat j \<in> set variants" by simp
  from same p gate Some j have "variants ! nat j = word"
    by (simp add: natural_def)
  with mem Some show ?thesis by simp
qed

lemma typo_examples:
  "key table_a ''b'' 1 (const_rand 0) = Inr (''b'', const_rand 0)"
  "natural table_the ''cat'' 1 (const_rand 0) = Inr (''cat'', const_rand 0)"
  "key table_a ''a'' 1 (const_rand 0) = Inr (''s'', const_rand 0)"
  "natural table_the ''the'' 1 (const_rand 0) = Inr (''teh'', const_rand 0)"
  "key table_a_a ''a'' 1 (const_rand 0) = Inr (''a'', const_rand 0)"
  "natural table_the_the ''the'' 1 (const_rand 0) = Inr (''the'', const_rand 0)"
  by (simp_all add: key_def natural_def random_random_const randint_const table_a_def
        table_the_def table_a_a_def table_the_the_def lower_def ascii_lowercase_def
        ascii_uppercase_def)

text \<open>
  C10, as stated, fails: a word also comes back unchanged when the lookup succeeds and
  the entry drawn is the word, or the character, itself. The tables are loaded as the
  files give them; with the lines \<^verbatim>\<open>the the\<close> and \<^verbatim>\<open>a a\<close> the words \<^verbatim>\<open>the\<close> and
  \<^verbatim>\<open>a\<close> are found and returned as they are.
\<close>

theorem typo_self_entry_counterexample:
  "table_the_the ''the'' = Some [''the'']
   \<and> perturb_word table_a_a table_the_the TYPO_NATURAL (1/2) ''the'' (const_rand 0)
       = Some (Inr (''the'', const_rand 0))
   \<and> table_a_a ''a'' = Some [''a'']
   \<and> perturb_word table_a_a table_the_the TYPO_KEYBOARD (1/2) ''a'' (const_rand 0)
       = Some (Inr (''a'', const_rand 0))"
proof -
  have "table_the_the ''the'' = Some [''the'']" and "table_a_a ''a'' = Some [''a'']"
    by (simp_all add: table_a_a_def table_the_the_def)
  then show ?thesis
    by (simp add: perturb_word_def typo_examples)
qed

text \<open>
  C10, amended. \<^verbatim>\<open>simple_perturb\<close> calls \<^verbatim>\<open>key\<close> and \<^verbatim>\<open>natural\<close> without their
  second argument, so with the default \<open>1.0\<close>, whatever the level: the level plays no
  part in what they do to a word. The gate \<^verbatim>\<open>random.random() > 1.0\<close> never holds. So
  a selected word comes back unchanged only when the lookup fails (the character picked
  is not a key of \<^verbatim>\<open>NN\<close>, or the word is not a key of \<^verbatim>\<open>typos\<close>) or when the table
  lists the character picked, or the word, among its own entries; never because of the
  gate.
\<close>

theorem typo_gates_always_pass:
  "\<not> fst (random_random g) > 1
    \<and> perturb_word NN typos TYPO_KEYBOARD perturbation_level word g = Some (key NN word 1 g)
    \<and> perturb_word NN typos TYPO_NATURAL perturbation_level word g
        = Some (natural typos word 1 g)
    \<and> (perturb_word NN typos TYPO_KEYBOARD perturbation_level word g = Some (Inr (word, g')) \<longrightarrow>
         (\<exists>i g2. random_randint 0 (int (length word) - 1) (snd (random_random g)) = Inr (i, g2)
            \<and> (NN [word ! nat i] = None
                \<or> (\<exists>neighbours. NN [lower (word ! nat i)] = Some neighbours
                       \<and> [word ! nat i] \<in> set neighbours))))
    \<and> (perturb_word NN typos TYPO_NATURAL perturbation_level word g = Some (Inr (word, g')) \<longrightarrow>
         typos word = None
         \<or> (\<exists>variants. typos word = Some variants \<and> word \<in> set variants))"
  using random_random_gate [of g] key_unchanged [of NN word g g']
    natural_unchanged [of typos word g g']
  by (simp add: perturb_word_def)

theorem typo_gates_always_pass_witness:
  "perturb_word table_a table_the TYPO_KEYBOARD (1/2) ''b'' (const_rand 0)
       = Some (Inr (''b'', const_rand 0))
   \<and> random_randint 0 (int (length ''b'') - 1) (snd (random_random (const_rand 0)))
       = Inr (0, const_rand 0)
   \<and> table_a [''b'' ! nat 0] = None
   \<and> perturb_word table_a table_the TYPO_NATURAL (1/2) ''cat'' (const_rand 0)
       = Some (Inr (''cat'', const_rand 0))
   \<and> table_the ''cat'' = None
   \<and> perturb_word table_a table_the TYPO_KEYBOARD (1/2) ''a'' (const_rand 0)
       = Some (Inr (''s'', const_rand 0))
   \<and> perturb_word table_a table_the TYPO_NATURAL (1/2) ''the'' (const_rand 0)
       = Some (Inr (''teh'', const_rand 0))"
  using typo_gates_always_pass [of "const_rand 0" table_a table_the "1/2" "''b''" "const_rand 0"]
    typo_gates_always_pass [of "const_rand 0" table_a table_the "1/2" "''cat''" "const_rand 0"]
    typo_gates_always_pass [of "const_rand 0" table_a table_the "1/2" "''a''"]
    typo_gates_always_pass [of "const_rand 0" table_a table_the "1/2" "''the''"]
    typo_examples
  by (simp add: table_a_def table_the_def random_random_const randint_const)

end
